theory Spec2Isabelle
  imports Complex_Main
begin

section \<open>Text primitives\<close>

text \<open>
  The rule activation engine (\<^verbatim>\<open>RuleActivationEngine.ts\<close>) works on JavaScript strings.
  They are modelled as HOL strings. Case mapping, white space and the regular
  expression class \<^verbatim>\<open>\w\<close> are the ones of the Basic Latin block, where they agree with
  JavaScript; text outside that block is carried along unchanged. JavaScript numbers
  are modelled as \<^typ>\<open>int\<close>: the fields concerned are counts, turn numbers, depths,
  priorities and token weights.
\<close>

definition isWhitespace :: "char \<Rightarrow> bool" where
  "isWhitespace c = (c \<in> set [CHR '' '', CHR 0x09, CHR 0x0A, CHR 0x0B, CHR 0x0C, CHR 0x0D])"

text \<open>\<^verbatim>\<open>String.prototype.trim\<close>.\<close>

definition trim :: "string \<Rightarrow> string" where
  "trim s = rev (dropWhile isWhitespace (rev (dropWhile isWhitespace s)))"

definition toLowerChar :: "char \<Rightarrow> char" where
  "toLowerChar c =
     (case map_of (zip ''ABCDEFGHIJKLMNOPQRSTUVWXYZ'' ''abcdefghijklmnopqrstuvwxyz'') c of
        None \<Rightarrow> c | Some d \<Rightarrow> d)"

definition toUpperChar :: "char \<Rightarrow> char" where
  "toUpperChar c =
     (case map_of (zip ''abcdefghijklmnopqrstuvwxyz'' ''ABCDEFGHIJKLMNOPQRSTUVWXYZ'') c of
        None \<Rightarrow> c | Some d \<Rightarrow> d)"

text \<open>\<^verbatim>\<open>String.prototype.toLowerCase\<close>.\<close>

definition toLowerCase :: "string \<Rightarrow> string" where
  "toLowerCase s = map toLowerChar s"

text \<open>The class \<^verbatim>\<open>\w\<close> of a regular expression without the unicode flag.\<close>

definition isWordChar :: "char \<Rightarrow> bool" where
  "isWordChar c =
     (c \<in> set ''abcdefghijklmnopqrstuvwxyzABCDEFGHIJKLMNOPQRSTUVWXYZ0123456789_'')"

text \<open>
  A pattern character matches a text character when they are equal, or, under the
  flag \<^verbatim>\<open>i\<close>, when their upper-case forms are.
\<close>

definition sameChar :: "bool \<Rightarrow> char \<Rightarrow> char \<Rightarrow> bool" where
  "sameChar ignoreCase a b = (if ignoreCase then toUpperChar a = toUpperChar b else a = b)"

fun startsWith :: "bool \<Rightarrow> string \<Rightarrow> string \<Rightarrow> bool" where
  "startsWith ignoreCase [] s = True"
| "startsWith ignoreCase (k # ks) [] = False"
| "startsWith ignoreCase (k # ks) (c # cs) = (sameChar ignoreCase k c \<and> startsWith ignoreCase ks cs)"

text \<open>\<^verbatim>\<open>String.prototype.includes\<close>: the keyword occurs at some position of the text.\<close>

fun includes_str :: "string \<Rightarrow> string \<Rightarrow> bool" where
  "includes_str [] k = startsWith False k []"
| "includes_str (c # cs) k = (startsWith False k (c # cs) \<or> includes_str cs k)"

text \<open>
  The assertion \<^verbatim>\<open>\b\<close> holds between two neighbouring positions when exactly one of
  them is a word character; the position before the start and the one after the end of
  the text count as not being word characters.
\<close>

definition isWordAt :: "char option \<Rightarrow> bool" where
  "isWordAt p = (case p of None \<Rightarrow> False | Some c \<Rightarrow> isWordChar c)"

definition wordBoundary :: "char option \<Rightarrow> char option \<Rightarrow> bool" where
  "wordBoundary prev next = (isWordAt prev \<noteq> isWordAt next)"

definition headOpt :: "string \<Rightarrow> char option" where
  "headOpt s = (case s of [] \<Rightarrow> None | c # cs \<Rightarrow> Some c)"

text \<open>
  The pattern built in \<^verbatim>\<open>checkKeywordMatch\<close> is \<^verbatim>\<open>\b\<close>, the keyword with every
  character that is special in a pattern escaped (\<^verbatim>\<open>escapeRegex\<close>), and \<^verbatim>\<open>\b\<close> again:
  it matches at a position when the keyword stands there literally between two word
  boundaries. \<open>matchHere\<close> is a match at the current position, with the character
  before it; \<open>scanFrom\<close> is the search of \<^verbatim>\<open>RegExp.prototype.test\<close> through the
  positions of a text, starting from index 0 on the fresh expression each call builds.
\<close>

definition matchHere :: "bool \<Rightarrow> string \<Rightarrow> char option \<Rightarrow> string \<Rightarrow> bool" where
  "matchHere ignoreCase kw prev s =
     (wordBoundary prev (headOpt s) \<and> startsWith ignoreCase kw s \<and>
      (let matched = take (length kw) s; rest = drop (length kw) s
       in wordBoundary (if matched = [] then prev else Some (last matched)) (headOpt rest)))"

fun scanFrom :: "bool \<Rightarrow> string \<Rightarrow> char option \<Rightarrow> string \<Rightarrow> bool" where
  "scanFrom ignoreCase kw prev [] = matchHere ignoreCase kw prev []"
| "scanFrom ignoreCase kw prev (c # cs) =
     (matchHere ignoreCase kw prev (c # cs) \<or> scanFrom ignoreCase kw (Some c) cs)"

definition regexTest :: "bool \<Rightarrow> string \<Rightarrow> string \<Rightarrow> bool" where
  "regexTest ignoreCase kw s = scanFrom ignoreCase kw None s"

text \<open>\<^verbatim>\<open>Array.prototype.join\<close>.\<close>

fun join :: "string \<Rightarrow> string list \<Rightarrow> string" where
  "join sep [] = []"
| "join sep [x] = x"
| "join sep (x # y # ys) = x @ sep @ join sep (y # ys)"

text \<open>
  \<^verbatim>\<open>Array.prototype.slice(start)\<close> with one argument: a negative start counts from the
  end of the array, and both cases are clamped to the array.
\<close>

definition slice :: "int \<Rightarrow> 'a list \<Rightarrow> 'a list" where
  "slice start xs =
     (let n = int (length xs);
          k = (if start < 0 then max (n + start) 0 else min start n)
      in drop (nat k) xs)"

text \<open>Numbers in template literals print in decimal.\<close>

definition digitChar :: "nat \<Rightarrow> char" where
  "digitChar d = ''0123456789'' ! d"

fun showNat :: "nat \<Rightarrow> string" where
  "showNat n = (if n < 10 then [digitChar n] else showNat (n div 10) @ [digitChar (n mod 10)])"

declare showNat.simps [simp del]

definition showInt :: "int \<Rightarrow> string" where
  "showInt i = (if i < 0 then CHR ''-'' # showNat (nat (- i)) else showNat (nat i))"

text \<open>
  The operator \<^verbatim>\<open>||\<close> on an optional number and on an optional string: an absent value,
  the number 0 and the empty string are falsy and give way to the right operand.
\<close>

definition orNumber :: "int option \<Rightarrow> int \<Rightarrow> int" where
  "orNumber x d = (case x of None \<Rightarrow> d | Some v \<Rightarrow> if v = 0 then d else v)"

definition orString :: "string option \<Rightarrow> string \<Rightarrow> string" where
  "orString x d = (case x of None \<Rightarrow> d | Some v \<Rightarrow> if v = [] then d else v)"

definition orList :: "'a list option \<Rightarrow> 'a list \<Rightarrow> 'a list" where
  "orList x d = (case x of None \<Rightarrow> d | Some v \<Rightarrow> v)"

text \<open>
  The same operator on two optional flags gives the left one when it is \<^verbatim>\<open>true\<close> and the
  right one otherwise. A parameter declared with the default \<^verbatim>\<open>false\<close> takes that value
  when the argument is absent.
\<close>

definition orFlag :: "bool option \<Rightarrow> bool option \<Rightarrow> bool option" where
  "orFlag a b = (if a = Some True then a else b)"

definition flagOrFalse :: "bool option \<Rightarrow> bool" where
  "flagOrFalse a = (case a of None \<Rightarrow> False | Some v \<Rightarrow> v)"

section \<open>Data model\<close>

text \<open>
  The declarations of \<^verbatim>\<open>types.ts\<close> as the engine uses them. An optional field is an
  \<open>option\<close>. The flags \<^verbatim>\<open>isActive\<close>, \<^verbatim>\<open>alwaysActive\<close> and \<^verbatim>\<open>pinned\<close> are only ever tested
  for truthiness, so an absent flag and \<^verbatim>\<open>false\<close> are the same value \<open>False\<close>.
  The field \<^verbatim>\<open>id\<close> is \<open>rule_id\<close> and \<^verbatim>\<open>keywords\<close> is \<open>keywords'\<close> here.
\<close>

datatype RuleLogic = AND_ANY | AND_ALL | NOT_ALL | NOT_ANY

record CustomRule =
  rule_id :: string
  title :: "string option"
  content :: string
  isActive :: bool
  alwaysActive :: bool
  keywords' :: "string list option"
  secondaryKeywords :: "string list option"
  logic :: "RuleLogic option"
  caseSensitive :: "bool option"
  matchWholeWords :: "bool option"
  scanDepth :: "int option"
  scanPlayerInput :: "bool option"
  scanAIOutput :: "bool option"
  scanMemories :: "bool option"
  tokenWeight :: "int option"
  probability :: "int option"
  maxActivationsPerTurn :: "int option"
  order :: "int option"
  lastActivated :: "int option"
  activationCount :: "int option"

datatype Role = User | Model

record Part =
  partText :: string

record GameHistoryEntry =
  role :: Role
  parts :: "Part list"

record Memory =
  memoryText :: string
  pinned :: bool
  importance :: "int option"

text \<open>
  The scanning options of the activation context carry the suffix \<open>_ctx\<close> where a rule
  has a field of the same name. The field \<^verbatim>\<open>entities\<close> is never read by the engine.
\<close>

record ActivationContext =
  playerInput :: "string option"
  aiResponse :: "string option"
  gameHistory :: "GameHistoryEntry list option"
  memories :: "Memory list option"
  currentTurn :: "int option"
  scanDepth_ctx :: "int option"
  tokenBudget :: "int option"
  caseSensitive_ctx :: "bool option"
  matchWholeWords_ctx :: "bool option"

text \<open>
  Rules are objects that the engine updates in place and that the result refers to, so
  a rule is named by its reference and read from a store of objects.
\<close>

type_synonym ref = nat

record ActivatedRule =
  rule :: ref
  activationReason :: string
  matchedKeywords :: "string list"
  tokenCost :: int
  priority :: int

record ActivationResult =
  activatedRules :: "ActivatedRule list"
  totalTokens :: int
  budgetExceeded :: bool
  skippedRules :: "ref list"

section \<open>Keyword matching\<close>

definition estimateTokens :: "string \<Rightarrow> int" where
  "estimateTokens txt = (if txt = [] then 0 else (int (length txt) + 3) div 4)"

text \<open>
  \<^verbatim>\<open>checkKeywordMatch\<close>, with its two results as a pair. The loop over the keywords is
  \<open>matchKeywords\<close>: a keyword that is empty after trimming is passed over, and a keyword
  that matches is pushed as it was given.
\<close>

definition keywordMatches :: "string \<Rightarrow> bool \<Rightarrow> bool \<Rightarrow> string \<Rightarrow> bool" where
  "keywordMatches searchText cs wholeWords keyword =
     (let searchKeyword = (if cs then keyword else toLowerCase keyword)
      in if wholeWords then regexTest (\<not> cs) searchKeyword searchText
         else includes_str searchText searchKeyword)"

fun matchKeywords :: "string \<Rightarrow> bool \<Rightarrow> bool \<Rightarrow> string list \<Rightarrow> string list \<Rightarrow> string list" where
  "matchKeywords searchText cs wholeWords [] matched = matched"
| "matchKeywords searchText cs wholeWords (keyword # rest) matched =
     (if trim keyword = [] then matchKeywords searchText cs wholeWords rest matched
      else if keywordMatches searchText cs wholeWords keyword
           then matchKeywords searchText cs wholeWords rest (matched @ [keyword])
           else matchKeywords searchText cs wholeWords rest matched)"

definition checkKeywordMatch ::
  "string \<Rightarrow> string list \<Rightarrow> bool option \<Rightarrow> bool option \<Rightarrow> bool \<times> string list" where
  "checkKeywordMatch txt kws caseSensitiveArg matchWholeWordsArg =
     (let cs = flagOrFalse caseSensitiveArg; wholeWords = flagOrFalse matchWholeWordsArg
      in if kws = [] then (False, [])
         else let searchText = (if cs then txt else toLowerCase txt);
                  matched = matchKeywords searchText cs wholeWords kws []
              in (matched \<noteq> [], matched))"

section \<open>Rule logic\<close>

text \<open>
  \<^verbatim>\<open>RuleLogic\<close> is a numeric enum whose declaration is not part of the engine's file, so
  the numbers of its members are a parameter \<open>lv\<close>. They matter in one place:
  \<^verbatim>\<open>rule.logic || RuleLogic.AND_ANY\<close> replaces an absent mode, and a mode whose number
  is 0, by \<^verbatim>\<open>AND_ANY\<close>. The reason of a mode that is not satisfied prints
  \<^verbatim>\<open>RuleLogic[logic]\<close>, the name of the member (\<open>logicName\<close>), the numbers of the members
  being distinct.
\<close>

definition resolveLogic :: "(RuleLogic \<Rightarrow> int) \<Rightarrow> RuleLogic option \<Rightarrow> RuleLogic" where
  "resolveLogic lv l = (case l of None \<Rightarrow> AND_ANY | Some m \<Rightarrow> if lv m = 0 then AND_ANY else m)"

fun logicName :: "RuleLogic \<Rightarrow> string" where
  "logicName AND_ANY = ''AND_ANY''"
| "logicName AND_ALL = ''AND_ALL''"
| "logicName NOT_ALL = ''NOT_ALL''"
| "logicName NOT_ANY = ''NOT_ANY''"

definition hasKeywords :: "CustomRule \<Rightarrow> bool" where
  "hasKeywords r = (case keywords' r of None \<Rightarrow> False | Some ks \<Rightarrow> 0 < length ks)"

definition hasSecondaryKeywords :: "CustomRule \<Rightarrow> bool" where
  "hasSecondaryKeywords r = (case secondaryKeywords r of None \<Rightarrow> False | Some ks \<Rightarrow> 0 < length ks)"

definition keywordCount :: "string list option \<Rightarrow> nat" where
  "keywordCount ks = (case ks of None \<Rightarrow> 0 | Some l \<Rightarrow> length l)"

text \<open>
  \<^verbatim>\<open>evaluateRuleLogic\<close>; the result is the triple of \<^verbatim>\<open>activated\<close>, \<^verbatim>\<open>reason\<close> and
  \<^verbatim>\<open>matchedKeywords\<close>. The text argument is not used by the source either.
\<close>

definition evaluateRuleLogic ::
  "(RuleLogic \<Rightarrow> int) \<Rightarrow> CustomRule \<Rightarrow> string list \<Rightarrow> string list \<Rightarrow> string
     \<Rightarrow> bool \<times> string \<times> string list" where
  "evaluateRuleLogic lv r primaryMatches secondaryMatches allText =
     (let lg = resolveLogic lv (logic r);
          allMatched = primaryMatches @ secondaryMatches;
          notSatisfied = (False, ''Logic '' @ logicName lg @ '' not satisfied'', allMatched)
      in if alwaysActive r then (True, ''Always active (constant rule)'', [])
         else if \<not> hasKeywords r \<and> \<not> hasSecondaryKeywords r
         then (False,
               ''No keywords defined - rule requires keywords to activate or alwaysActive flag'',
               [])
         else case lg of
           AND_ANY \<Rightarrow>
             if 0 < length primaryMatches \<or> 0 < length secondaryMatches
             then (True, ''AND_ANY: Matched '' @ showNat (length allMatched) @ '' keywords'',
                   allMatched)
             else notSatisfied
         | AND_ALL \<Rightarrow>
             (let primaryRequired = keywordCount (keywords' r);
                  secondaryRequired = keywordCount (secondaryKeywords r)
              in if length primaryMatches = primaryRequired
                    \<and> length secondaryMatches = secondaryRequired
                 then (True,
                       ''AND_ALL: All '' @ showNat (primaryRequired + secondaryRequired)
                         @ '' keywords matched'',
                       allMatched)
                 else notSatisfied)
         | NOT_ALL \<Rightarrow>
             (let totalRequired = keywordCount (keywords' r) + keywordCount (secondaryKeywords r)
              in if length allMatched < totalRequired \<and> 0 < length allMatched
                 then (True,
                       ''NOT_ALL: '' @ showNat (length allMatched) @ ''/''
                         @ showNat totalRequired @ '' keywords matched'',
                       allMatched)
                 else notSatisfied)
         | NOT_ANY \<Rightarrow>
             if length allMatched = 0 then (True, ''NOT_ANY: No keywords found'', [])
             else notSatisfied)"

section \<open>Gates\<close>

text \<open>
  The engine's own state is the map \<^verbatim>\<open>activationHistory\<close> from rule ids to the turns at
  which the rule fired. \<^verbatim>\<open>checkActivationLimits\<close> reads it.
\<close>

definition checkActivationLimits :: "(string \<Rightarrow> int list option) \<Rightarrow> CustomRule \<Rightarrow> int \<Rightarrow> bool" where
  "checkActivationLimits hist r turn =
     (case maxActivationsPerTurn r of
        None \<Rightarrow> True
      | Some m \<Rightarrow>
          if m = 0 \<or> m \<le> 0 then True
          else let history = orList (hist (rule_id r)) [];
                   activationsThisTurn = length (filter (\<lambda>t. t = turn) history)
               in int activationsThisTurn < m)"

text \<open>
  \<^verbatim>\<open>checkProbability\<close> draws from \<^verbatim>\<open>Math.random\<close>. The generator is a parameter: \<open>rnd n\<close>
  is the value in the interval from 0 to 1 that the \<open>n\<close>-th call returns, and the number of
  calls made so far is passed in and returned.
\<close>

definition checkProbability :: "(nat \<Rightarrow> real) \<Rightarrow> CustomRule \<Rightarrow> nat \<Rightarrow> bool \<times> nat" where
  "checkProbability rnd r n =
     (case probability r of
        None \<Rightarrow> (True, n)
      | Some p \<Rightarrow>
          if 100 \<le> p then (True, n)
          else if p \<le> 0 then (False, n)
          else (rnd n * 100 < real_of_int p, Suc n))"

section \<open>Text collection\<close>

definition entryText :: "GameHistoryEntry \<Rightarrow> string" where
  "entryText entry = join '' '' (map partText (parts entry))"

text \<open>The constant \<^verbatim>\<open>depth\<close> of \<^verbatim>\<open>collectScanText\<close>.\<close>

definition resolveDepth :: "CustomRule \<Rightarrow> ActivationContext \<Rightarrow> int" where
  "resolveDepth r ctx = orNumber (scanDepth r) (orNumber (scanDepth_ctx ctx) 5)"

definition memoryScanned :: "Memory \<Rightarrow> bool" where
  "memoryScanned m =
     (\<not> pinned m \<or> (case importance m of None \<Rightarrow> False | Some i \<Rightarrow> i \<noteq> 0 \<and> 70 < i))"

text \<open>
  \<^verbatim>\<open>collectScanText\<close>. The variable \<^verbatim>\<open>scanText\<close> is threaded through the
  statements of the source in their order; each \<^verbatim>\<open>for\<close> loop is a left fold that
  appends to it.
\<close>

definition collectScanText :: "CustomRule \<Rightarrow> ActivationContext \<Rightarrow> string" where
  "collectScanText r ctx =
     (let depth = resolveDepth r ctx;
          scanText0 = [];
          scanText1 =
            (case playerInput ctx of
               Some p \<Rightarrow>
                 if scanPlayerInput r \<noteq> Some False \<and> p \<noteq> [] then scanText0 @ p @ '' ''
                 else scanText0
             | None \<Rightarrow> scanText0);
          scanText2 =
            (case aiResponse ctx of
               Some a \<Rightarrow>
                 if scanAIOutput r \<noteq> Some False \<and> a \<noteq> [] then scanText1 @ a @ '' ''
                 else scanText1
             | None \<Rightarrow> scanText1);
          scanText3 =
            (case gameHistory ctx of
               None \<Rightarrow> scanText2
             | Some hist \<Rightarrow>
                 if 0 < length hist then
                   (let afterAI =
                          (if scanAIOutput r \<noteq> Some False
                           then foldl (\<lambda>acc entry. acc @ entryText entry @ '' '') scanText2
                                  (slice (- 3) (filter (\<lambda>entry. role entry = Model) hist))
                           else scanText2)
                    in if scanPlayerInput r \<noteq> Some False
                       then foldl (\<lambda>acc entry.
                                     if role entry = User then acc @ entryText entry @ '' ''
                                     else acc)
                              afterAI (slice (- depth) hist)
                       else afterAI)
                 else scanText2);
          scanText4 =
            (case memories ctx of
               Some ms \<Rightarrow>
                 if scanMemories r \<noteq> Some False
                 then foldl (\<lambda>acc m. acc @ memoryText m @ '' '') scanText3
                        (slice (- depth) (filter memoryScanned ms))
                 else scanText3
             | None \<Rightarrow> scanText3)
      in trim scanText4)"

section \<open>Processing the rules\<close>

text \<open>
  What a call of \<^verbatim>\<open>processRules\<close> can change is collected in a record: the rule objects
  (a call writes \<^verbatim>\<open>lastActivated\<close> and \<^verbatim>\<open>activationCount\<close> of a rule it activates), the
  engine's \<^verbatim>\<open>activationHistory\<close>, the number of calls of \<^verbatim>\<open>Math.random\<close> made so far,
  and the lines written with \<^verbatim>\<open>console.log\<close> for single rules. A line is kept by its kind,
  with the label \<^verbatim>\<open>rule.title || rule.id\<close> and the values the message prints. The two
  summaries that the source prints before and after the loop are left out.
\<close>

datatype LogLine =
    LimitReached string
  | ProbabilityFailed string
  | NoTextToScan string
  | LogicNotSatisfied string string "string list" "string list"
  | WouldExceedBudget string
  | RuleActivated string string

record World =
  objects :: "ref \<Rightarrow> CustomRule"
  activationHistory :: "string \<Rightarrow> int list option"
  randomCalls :: nat
  console :: "LogLine list"

text \<open>The local variables \<^verbatim>\<open>activated\<close>, \<^verbatim>\<open>skipped\<close> and \<^verbatim>\<open>totalTokens\<close> of the loop.\<close>

record Progress =
  activated :: "ActivatedRule list"
  skipped :: "ref list"
  total :: int

text \<open>The constants \<^verbatim>\<open>tokenBudget\<close> and \<^verbatim>\<open>currentTurn\<close> of \<^verbatim>\<open>processRules\<close>.\<close>

definition resolveBudget :: "ActivationContext \<Rightarrow> int" where
  "resolveBudget ctx = orNumber (tokenBudget ctx) 5000"

definition resolveTurn :: "ActivationContext \<Rightarrow> int" where
  "resolveTurn ctx = orNumber (currentTurn ctx) 0"

text \<open>
  The two calls of \<^verbatim>\<open>checkKeywordMatch\<close> in the loop, and the call of
  \<^verbatim>\<open>evaluateRuleLogic\<close> on their results.
\<close>

definition primaryMatchOf :: "CustomRule \<Rightarrow> ActivationContext \<Rightarrow> string \<Rightarrow> bool \<times> string list" where
  "primaryMatchOf r ctx scanText =
     checkKeywordMatch scanText (orList (keywords' r) [])
       (orFlag (caseSensitive r) (caseSensitive_ctx ctx))
       (orFlag (matchWholeWords r) (matchWholeWords_ctx ctx))"

definition secondaryMatchOf :: "CustomRule \<Rightarrow> ActivationContext \<Rightarrow> string \<Rightarrow> bool \<times> string list" where
  "secondaryMatchOf r ctx scanText =
     checkKeywordMatch scanText (orList (secondaryKeywords r) [])
       (orFlag (caseSensitive r) (caseSensitive_ctx ctx))
       (orFlag (matchWholeWords r) (matchWholeWords_ctx ctx))"

definition logicResultOf ::
  "(RuleLogic \<Rightarrow> int) \<Rightarrow> CustomRule \<Rightarrow> ActivationContext \<Rightarrow> string \<Rightarrow> bool \<times> string \<times> string list" where
  "logicResultOf lv r ctx scanText =
     evaluateRuleLogic lv r (snd (primaryMatchOf r ctx scanText))
       (snd (secondaryMatchOf r ctx scanText)) scanText"

definition ruleLabel :: "CustomRule \<Rightarrow> string" where
  "ruleLabel r = orString (title r) (rule_id r)"

definition say :: "LogLine \<Rightarrow> World \<Rightarrow> World" where
  "say l w = w\<lparr>console := console w @ [l]\<rparr>"

definition skip :: "ref \<Rightarrow> Progress \<Rightarrow> Progress" where
  "skip x p = p\<lparr>skipped := skipped p @ [x]\<rparr>"

text \<open>
  The effects of an activation, after the rule was pushed: the turn is appended to the
  history of the rule's id, and the two fields of the rule object are written
  (\<open>touchRule\<close>).
\<close>

definition touchRule :: "int \<Rightarrow> CustomRule \<Rightarrow> CustomRule" where
  "touchRule turn r =
     r\<lparr>lastActivated := Some turn,
       activationCount := Some (orNumber (activationCount r) 0 + 1)\<rparr>"

definition recordActivation :: "ref \<Rightarrow> int \<Rightarrow> World \<Rightarrow> World" where
  "recordActivation x turn w =
     (let r = objects w x;
          history = orList (activationHistory w (rule_id r)) []
      in w\<lparr>activationHistory := (activationHistory w)(rule_id r \<mapsto> history @ [turn]),
            objects := (objects w)(x := touchRule turn r)\<rparr>)"

text \<open>
  The body of the loop of \<^verbatim>\<open>processRules\<close> for the rule object \<open>x\<close>. None of its
  operations throws on values of the declared types, so the \<^verbatim>\<open>catch\<close> branch of the
  source is never entered and has no counterpart here.
\<close>

definition processRule ::
  "(RuleLogic \<Rightarrow> int) \<Rightarrow> (nat \<Rightarrow> real) \<Rightarrow> ActivationContext \<Rightarrow> int \<Rightarrow> int \<Rightarrow> ref
     \<Rightarrow> Progress \<times> World \<Rightarrow> Progress \<times> World" where
  "processRule lv rnd ctx budget turn x st =
     (let p = fst st; w = snd st; r = objects w x
      in if \<not> checkActivationLimits (activationHistory w) r turn
         then (skip x p, say (LimitReached (ruleLabel r)) w)
         else
           let (passed, n) = checkProbability rnd r (randomCalls w);
               w1 = w\<lparr>randomCalls := n\<rparr>
           in if \<not> passed then (skip x p, say (ProbabilityFailed (ruleLabel r)) w1)
              else
                let scanText = collectScanText r ctx
                in if scanText = [] then (p, say (NoTextToScan (ruleLabel r)) w1)
                   else
                     let primaryMatch = primaryMatchOf r ctx scanText;
                         secondaryMatch = secondaryMatchOf r ctx scanText;
                         (isActivated, reason, matched) = logicResultOf lv r ctx scanText
                     in if \<not> isActivated
                        then (skip x p,
                              say (LogicNotSatisfied (ruleLabel r) reason
                                     (snd primaryMatch) (snd secondaryMatch)) w1)
                        else
                          let cost = orNumber (tokenWeight r) (estimateTokens (content r))
                          in if total p + cost > budget
                             then (skip x p, say (WouldExceedBudget (ruleLabel r)) w1)
                             else
                               (p\<lparr>activated := activated p @
                                     [\<lparr>rule = x, activationReason = reason,
                                       matchedKeywords = matched, tokenCost = cost,
                                       priority = orNumber (order r) 0\<rparr>],
                                   total := total p + cost\<rparr>,
                                say (RuleActivated (ruleLabel r) reason)
                                  (recordActivation x turn w1)))"

text \<open>The loop over the active rules, in their order.\<close>

fun processLoop ::
  "(RuleLogic \<Rightarrow> int) \<Rightarrow> (nat \<Rightarrow> real) \<Rightarrow> ActivationContext \<Rightarrow> int \<Rightarrow> int \<Rightarrow> ref list
     \<Rightarrow> Progress \<times> World \<Rightarrow> Progress \<times> World" where
  "processLoop lv rnd ctx budget turn [] st = st"
| "processLoop lv rnd ctx budget turn (x # xs) st =
     processLoop lv rnd ctx budget turn xs (processRule lv rnd ctx budget turn x st)"

text \<open>
  \<^verbatim>\<open>processRules\<close>. Both calls of \<^verbatim>\<open>Array.prototype.sort\<close> are stable sorts by
  descending priority, that is stable insertion by the negated key.
\<close>

definition activeRulesOf :: "(ref \<Rightarrow> CustomRule) \<Rightarrow> ref list \<Rightarrow> ref list" where
  "activeRulesOf objs rules =
     sort_key (\<lambda>x. - orNumber (order (objs x)) 0) (filter (\<lambda>x. isActive (objs x)) rules)"

definition processRules ::
  "(RuleLogic \<Rightarrow> int) \<Rightarrow> (nat \<Rightarrow> real) \<Rightarrow> ref list \<Rightarrow> ActivationContext \<Rightarrow> World
     \<Rightarrow> ActivationResult \<times> World" where
  "processRules lv rnd rules ctx w =
     (let budget = resolveBudget ctx;
          turn = resolveTurn ctx;
          activeRules = activeRulesOf (objects w) rules;
          st = processLoop lv rnd ctx budget turn activeRules
                 (\<lparr>activated = [], skipped = [], total = 0\<rparr>, w);
          p = fst st
      in (\<lparr>activatedRules = sort_key (\<lambda>a. - priority a) (activated p),
           totalTokens = total p,
           budgetExceeded = (total p > budget),
           skippedRules = skipped p\<rparr>,
          snd st))"

text \<open>
  Values to run the engine on: a rule that is active and sets nothing else, a context
  with every field absent, and the state of a newly made engine over a store of rules.
\<close>

definition plainRule :: "string \<Rightarrow> CustomRule" where
  "plainRule i =
     \<lparr>rule_id = i, title = None, content = [], isActive = True, alwaysActive = False,
      keywords' = None, secondaryKeywords = None, logic = None, caseSensitive = None,
      matchWholeWords = None, scanDepth = None, scanPlayerInput = None, scanAIOutput = None,
      scanMemories = None, tokenWeight = None, probability = None,
      maxActivationsPerTurn = None, order = None, lastActivated = None,
      activationCount = None\<rparr>"

definition emptyContext :: ActivationContext where
  "emptyContext =
     \<lparr>playerInput = None, aiResponse = None, gameHistory = None, memories = None,
      currentTurn = None, scanDepth_ctx = None, tokenBudget = None,
      caseSensitive_ctx = None, matchWholeWords_ctx = None\<rparr>"

definition newEngine :: "(ref \<Rightarrow> CustomRule) \<Rightarrow> World" where
  "newEngine objs =
     \<lparr>objects = objs, activationHistory = (\<lambda>k. None), randomCalls = 0, console = []\<rparr>"

text \<open>
  The rules R1 (priority 10, weight 3000) and R2 (priority 5, weight 3000), each with a
  keyword that the player's input holds, and a context with a budget of 5000.
\<close>

definition budgetRules :: "ref \<Rightarrow> CustomRule" where
  "budgetRules =
     (\<lambda>x. plainRule ''other'')
     (0 := (plainRule ''r1'')\<lparr>keywords' := Some [''dragon''], order := Some 10,
                               tokenWeight := Some 3000\<rparr>,
      1 := (plainRule ''r2'')\<lparr>keywords' := Some [''sword''], order := Some 5,
                               tokenWeight := Some 3000\<rparr>)"

definition budgetContext :: ActivationContext where
  "budgetContext = emptyContext\<lparr>playerInput := Some ''Dragon sword'', tokenBudget := Some 5000\<rparr>"

text \<open>
  A rule that sets \<^verbatim>\<open>caseSensitive\<close> to \<^verbatim>\<open>false\<close> itself, under a context whose default is
  \<^verbatim>\<open>true\<close>.
\<close>

definition flagRules :: "ref \<Rightarrow> CustomRule" where
  "flagRules = (\<lambda>x. (plainRule ''r'')\<lparr>keywords' := Some [''Dragon''], caseSensitive := Some False\<rparr>)"

definition flagContext :: ActivationContext where
  "flagContext = emptyContext\<lparr>playerInput := Some ''a dragon'', caseSensitive_ctx := Some True\<rparr>"

text \<open>One numbering of the members of \<^verbatim>\<open>RuleLogic\<close>, to run the engine with.\<close>

fun logicNumber :: "RuleLogic \<Rightarrow> int" where
  "logicNumber AND_ANY = 0"
| "logicNumber AND_ALL = 1"
| "logicNumber NOT_ALL = 2"
| "logicNumber NOT_ANY = 3"

section \<open>Prompt formatting\<close>

text \<open>
  The fixed texts of \<^verbatim>\<open>formatForPrompt\<close>. Where a literal of the source has text outside
  Basic Latin, the bytes of the source file stand for it.
\<close>

definition headerText :: string where
  "headerText =
     [CHR 0x0A] @ ''=== LU'' @ [CHR 0xC3, CHR 0xA1, CHR 0xC2, CHR 0xBA, CHR 0xC2, CHR 0xAC]
     @ ''T L'' @ [CHR 0xC3, CHR 0xA1, CHR 0xC2, CHR 0xBB, CHR 0xE2, CHR 0x80, CHR 0xA0]
     @ '' T'' @ [CHR 0xC3, CHR 0x83, CHR 0xE2, CHR 0x84, CHR 0xA2]
     @ ''Y CH'' @ [CHR 0xC3, CHR 0xA1, CHR 0xC2, CHR 0xBB, CHR 0xCB, CHR 0x86]
     @ ''NH '' @ [CHR 0xC3, CHR 0x84, CHR 0xC3, CHR 0x86, CHR 0xC2, CHR 0xAF, CHR 0xC3, CHR 0xA1,
                  CHR 0xC2, CHR 0xBB, CHR 0xC2, CHR 0xA2]
     @ ''C K'' @ [CHR 0xC3, CHR 0x83] @ ''CH HO''
     @ [CHR 0xC3, CHR 0xA1, CHR 0xC2, CHR 0xBA, CHR 0xC2, CHR 0xA0] @ ''T ==='' @ [CHR 0x0A]"

definition fallbackTitle :: string where
  "fallbackTitle = ''Lu'' @ [CHR 0xC3, CHR 0xA1, CHR 0xC2, CHR 0xBA, CHR 0xC2, CHR 0xAD] @ ''t ''"

definition priorityLabel :: string where
  "priorityLabel =
     [CHR 0xC3, CHR 0x84, CHR 0xC3, CHR 0xA1, CHR 0xC2, CHR 0xBB, CHR 0xE2, CHR 0x84, CHR 0xA2]
     @ '' '' @ [CHR 0xC3, CHR 0x86, CHR 0xC2, CHR 0xB0] @ ''u ti''
     @ [CHR 0xC3, CHR 0x83, CHR 0xC2, CHR 0xAA] @ ''n: ''"

definition keywordsLabel :: string where
  "keywordsLabel =
     '' - Kh'' @ [CHR 0xC3, CHR 0xA1, CHR 0xC2, CHR 0xBB, CHR 0xE2, CHR 0x80, CHR 0xBA]
     @ ''p t'' @ [CHR 0xC3, CHR 0xA1, CHR 0xC2, CHR 0xBB, CHR 0xC2, CHR 0xAB]
     @ '' kh'' @ [CHR 0xC3, CHR 0x83, CHR 0xC2, CHR 0xB3] @ ''a: ''"

definition footerStart :: string where
  "footerStart =
     [CHR 0x0A] @ ''=== T'' @ [CHR 0xC3, CHR 0xA1, CHR 0xC2, CHR 0xBB, CHR 0xE2, CHR 0x80, CHR 0xA2]
     @ ''ng c'' @ [CHR 0xC3, CHR 0xA1, CHR 0xC2, CHR 0xBB, CHR 0xE2, CHR 0x84, CHR 0xA2] @ ''ng: ''"

definition footerMiddle :: string where
  "footerMiddle = '' lu'' @ [CHR 0xC3, CHR 0xA1, CHR 0xC2, CHR 0xBA, CHR 0xC2, CHR 0xAD] @ ''t, ''"

definition footerEnd :: string where
  "footerEnd = '' tokens ==='' @ [CHR 0x0A]"

text \<open>The block that one pass of the loop of \<^verbatim>\<open>formatForPrompt\<close> appends.\<close>

definition ruleBlock :: "(ref \<Rightarrow> CustomRule) \<Rightarrow> ActivatedRule \<Rightarrow> string" where
  "ruleBlock objs a =
     (let r = objs (rule a);
          ttl = orString (title r) (fallbackTitle @ rule_id r);
          line = [CHR 0x0A] @ ''['' @ ttl @ ''] ('' @ priorityLabel
                   @ showInt (orNumber (order r) 0) @ '')'';
          line' = (if 0 < length (matchedKeywords a)
                   then line @ keywordsLabel @ join '', '' (matchedKeywords a)
                   else line)
      in line' @ [CHR 0x0A] @ content r @ [CHR 0x0A])"

definition formatForPrompt :: "(ref \<Rightarrow> CustomRule) \<Rightarrow> ActivationResult \<Rightarrow> string" where
  "formatForPrompt objs res =
     (if length (activatedRules res) = 0 then []
      else
        let prompt = foldl (\<lambda>acc a. acc @ ruleBlock objs a) headerText (activatedRules res)
        in prompt @ footerStart @ showNat (length (activatedRules res)) @ footerMiddle
             @ showInt (totalTokens res) @ footerEnd)"

text \<open>
  Reading the footer of a formatted block back. The block has to end with the footer's
  closing text; before it stands the number of tokens, a run of digits with or without
  a minus sign, then the text between the two numbers, then the number of rules, a run of
  digits, then the footer's opening text. The result is the pair of the two numbers.
\<close>

definition isDigit :: "char \<Rightarrow> bool" where
  "isDigit c = (c \<in> set ''0123456789'')"

definition digitValue :: "char \<Rightarrow> nat" where
  "digitValue c = length (takeWhile (\<lambda>d. d \<noteq> c) ''0123456789'')"

definition readNat :: "string \<Rightarrow> nat" where
  "readNat s = foldl (\<lambda>n c. 10 * n + digitValue c) 0 s"

definition readInt :: "string \<Rightarrow> int" where
  "readInt s =
     (case s of
        [] \<Rightarrow> 0
      | c # cs \<Rightarrow> if c = CHR ''-'' then - int (readNat cs) else int (readNat (c # cs)))"

definition endsWith :: "string \<Rightarrow> string \<Rightarrow> bool" where
  "endsWith e s = (length e \<le> length s \<and> drop (length s - length e) s = e)"

definition dropEnd :: "nat \<Rightarrow> string \<Rightarrow> string" where
  "dropEnd n s = take (length s - n) s"

definition trailing :: "(char \<Rightarrow> bool) \<Rightarrow> string \<Rightarrow> string" where
  "trailing P s = rev (takeWhile P (rev s))"

definition readFooter :: "string \<Rightarrow> (nat \<times> int) option" where
  "readFooter block =
     (if \<not> endsWith footerEnd block then None
      else
        let s1 = dropEnd (length footerEnd) block;
            tokens = trailing (\<lambda>c. isDigit c \<or> c = CHR ''-'') s1;
            s2 = dropEnd (length tokens) s1
        in if \<not> endsWith footerMiddle s2 then None
           else
             let s3 = dropEnd (length footerMiddle) s2;
                 count = trailing isDigit s3
             in if \<not> endsWith footerStart (dropEnd (length count) s3) then None
                else Some (readNat count, readInt tokens))"

section \<open>The collected text, part by part\<close>









text \<open>
  A rule that was last activated at turn 5, twice so far, with a keyword that the
  player's input holds, and the context of a given turn with that input.
\<close>

definition seenRules :: "ref \<Rightarrow> CustomRule" where
  "seenRules =
     (\<lambda>x. (plainRule ''r'')\<lparr>keywords' := Some [''orc''], lastActivated := Some 5,
                              activationCount := Some 2\<rparr>)"

definition turnContext :: "int \<Rightarrow> ActivationContext" where
  "turnContext t = emptyContext\<lparr>playerInput := Some ''orc'', currentTurn := Some t\<rparr>"

text \<open>The same rules, the second of which is not active.\<close>

definition idleRules :: "ref \<Rightarrow> CustomRule" where
  "idleRules = seenRules (Suc 0 := (seenRules (Suc 0))\<lparr>rule_id := ''idle'', isActive := False\<rparr>)"

section \<open>Evaluating the examples\<close>

lemma budgetRules_text: "collectScanText (budgetRules x) budgetContext = ''Dragon sword''"
  by (simp add: collectScanText_def budgetRules_def budgetContext_def plainRule_def
      emptyContext_def trim_def isWhitespace_def Let_def)

lemma lower_budget_text: "toLowerCase ''Dragon sword'' = ''dragon sword''"
  by (simp add: toLowerCase_def toLowerChar_def)

lemma budgetRules_logic_0:
  "logicResultOf logicNumber (budgetRules 0) budgetContext ''Dragon sword''
     = (True, ''AND_ANY: Matched 1 keywords'', [''dragon''])"
  by (simp add: logicResultOf_def primaryMatchOf_def secondaryMatchOf_def checkKeywordMatch_def
      evaluateRuleLogic_def budgetRules_def budgetContext_def plainRule_def emptyContext_def
      orList_def orFlag_def flagOrFalse_def lower_budget_text keywordMatches_def trim_def
      isWhitespace_def toLowerCase_def toLowerChar_def sameChar_def resolveLogic_def
      hasKeywords_def showNat.simps digitChar_def Let_def)

lemma budgetRules_logic_1:
  "logicResultOf logicNumber (budgetRules (Suc 0)) budgetContext ''Dragon sword''
     = (True, ''AND_ANY: Matched 1 keywords'', [''sword''])"
  by (simp add: logicResultOf_def primaryMatchOf_def secondaryMatchOf_def checkKeywordMatch_def
      evaluateRuleLogic_def budgetRules_def budgetContext_def plainRule_def emptyContext_def
      orList_def orFlag_def flagOrFalse_def lower_budget_text keywordMatches_def trim_def
      isWhitespace_def toLowerCase_def toLowerChar_def sameChar_def resolveLogic_def
      hasKeywords_def showNat.simps digitChar_def Let_def)

lemma flagRules_text: "collectScanText (flagRules x) flagContext = ''a dragon''"
  by (simp add: collectScanText_def flagRules_def flagContext_def plainRule_def
      emptyContext_def trim_def isWhitespace_def Let_def)

lemma flagRules_primary: "primaryMatchOf (flagRules x) flagContext ''a dragon'' = (False, [])"
  by (simp add: primaryMatchOf_def checkKeywordMatch_def flagRules_def flagContext_def
      plainRule_def emptyContext_def orList_def orFlag_def flagOrFalse_def keywordMatches_def
      trim_def isWhitespace_def sameChar_def Let_def)

lemma flagRules_own_setting:
  "checkKeywordMatch ''a dragon'' (orList (keywords' (flagRules x)) [])
     (caseSensitive (flagRules x)) (matchWholeWords (flagRules x)) = (True, [''Dragon''])"
  by (simp add: checkKeywordMatch_def flagRules_def plainRule_def orList_def flagOrFalse_def
      keywordMatches_def trim_def isWhitespace_def toLowerCase_def toLowerChar_def sameChar_def
      Let_def)

lemma flagRules_logic:
  "logicResultOf logicNumber (flagRules x) flagContext ''a dragon''
     = (False, ''Logic AND_ANY not satisfied'', [])"
proof -
  have secondary: "secondaryMatchOf (flagRules x) flagContext ''a dragon'' = (False, [])"
    by (simp add: secondaryMatchOf_def checkKeywordMatch_def flagRules_def plainRule_def
        orList_def Let_def)
  show ?thesis
    unfolding logicResultOf_def flagRules_primary secondary
    by (simp add: evaluateRuleLogic_def flagRules_def plainRule_def resolveLogic_def
        hasKeywords_def Let_def)
qed

section \<open>The body of the loop, case by case\<close>

lemma say_proj [simp]:
  "objects (say l w) = objects w"
  "activationHistory (say l w) = activationHistory w"
  "randomCalls (say l w) = randomCalls w"
  "console (say l w) = console w @ [l]"
  by (simp_all add: say_def)

lemma recordActivation_proj [simp]:
  "objects (recordActivation x turn w) = (objects w)(x := touchRule turn (objects w x))"
  "activationHistory (recordActivation x turn w) =
     (activationHistory w)(rule_id (objects w x) \<mapsto>
        orList (activationHistory w (rule_id (objects w x))) [] @ [turn])"
  "randomCalls (recordActivation x turn w) = randomCalls w"
  "console (recordActivation x turn w) = console w"
  by (simp_all add: recordActivation_def Let_def)

lemma processRule_admitted:
  assumes "checkActivationLimits (activationHistory w) (objects w x) turn"
    and "checkProbability rnd (objects w x) (randomCalls w) = (True, n)"
    and "collectScanText (objects w x) ctx \<noteq> []"
    and "logicResultOf lv (objects w x) ctx (collectScanText (objects w x) ctx)
           = (True, reason, matched)"
    and "total p + orNumber (tokenWeight (objects w x)) (estimateTokens (content (objects w x)))
           \<le> budget"
  shows "processRule lv rnd ctx budget turn x (p, w) =
     (p\<lparr>activated := activated p @
          [\<lparr>rule = x, activationReason = reason, matchedKeywords = matched,
            tokenCost = orNumber (tokenWeight (objects w x))
                          (estimateTokens (content (objects w x))),
            priority = orNumber (order (objects w x)) 0\<rparr>],
        total := total p + orNumber (tokenWeight (objects w x))
                             (estimateTokens (content (objects w x)))\<rparr>,
      say (RuleActivated (ruleLabel (objects w x)) reason)
        (recordActivation x turn (w\<lparr>randomCalls := n\<rparr>)))"
  using assms by (simp add: processRule_def Let_def)

lemma processRule_over_budget:
  assumes "checkActivationLimits (activationHistory w) (objects w x) turn"
    and "checkProbability rnd (objects w x) (randomCalls w) = (True, n)"
    and "collectScanText (objects w x) ctx \<noteq> []"
    and "fst (logicResultOf lv (objects w x) ctx (collectScanText (objects w x) ctx))"
    and "budget < total p + orNumber (tokenWeight (objects w x))
                              (estimateTokens (content (objects w x)))"
  shows "processRule lv rnd ctx budget turn x (p, w) =
     (skip x p, say (WouldExceedBudget (ruleLabel (objects w x))) (w\<lparr>randomCalls := n\<rparr>))"
  using assms by (auto simp: processRule_def Let_def split: prod.splits)

lemma processRule_logic_failed:
  assumes "checkActivationLimits (activationHistory w) (objects w x) turn"
    and "checkProbability rnd (objects w x) (randomCalls w) = (True, n)"
    and "collectScanText (objects w x) ctx \<noteq> []"
    and "logicResultOf lv (objects w x) ctx (collectScanText (objects w x) ctx)
           = (False, reason, matched)"
  shows "processRule lv rnd ctx budget turn x (p, w) =
     (skip x p,
      say (LogicNotSatisfied (ruleLabel (objects w x)) reason
             (snd (primaryMatchOf (objects w x) ctx (collectScanText (objects w x) ctx)))
             (snd (secondaryMatchOf (objects w x) ctx (collectScanText (objects w x) ctx))))
        (w\<lparr>randomCalls := n\<rparr>))"
  using assms by (simp add: processRule_def Let_def)

text \<open>
  A pass of the loop either leaves the activated list, the rule objects and the history
  as they are, or it pushes one entry for the rule at hand and records the activation.
\<close>

lemma processRule_shape:
  "(activated (fst (processRule lv rnd ctx budget turn x st)) = activated (fst st)
      \<and> objects (snd (processRule lv rnd ctx budget turn x st)) = objects (snd st)
      \<and> activationHistory (snd (processRule lv rnd ctx budget turn x st))
          = activationHistory (snd st))
   \<or> (\<exists>a. rule a = x
         \<and> activated (fst (processRule lv rnd ctx budget turn x st)) = activated (fst st) @ [a]
         \<and> objects (snd (processRule lv rnd ctx budget turn x st))
             = (objects (snd st))(x := touchRule turn (objects (snd st) x))
         \<and> activationHistory (snd (processRule lv rnd ctx budget turn x st))
             = (activationHistory (snd st))(rule_id (objects (snd st) x) \<mapsto>
                 orList (activationHistory (snd st) (rule_id (objects (snd st) x))) [] @ [turn]))"
  by (auto simp: processRule_def Let_def skip_def split: prod.splits)

lemma processRule_total:
  "total (fst st) \<le> budget \<Longrightarrow> total (fst (processRule lv rnd ctx budget turn x st)) \<le> budget"
  by (auto simp: processRule_def Let_def skip_def split: prod.splits)

lemma processLoop_total:
  "total (fst st) \<le> budget \<Longrightarrow> total (fst (processLoop lv rnd ctx budget turn xs st)) \<le> budget"
  by (induction xs arbitrary: st) (simp_all add: processRule_total)

lemma processRule_refs:
  "rule ` set (activated (fst (processRule lv rnd ctx budget turn x st)))
     \<subseteq> insert x (rule ` set (activated (fst st)))"
  "set (skipped (fst (processRule lv rnd ctx budget turn x st)))
     \<subseteq> insert x (set (skipped (fst st)))"
  by (auto simp: processRule_def Let_def skip_def split: prod.splits if_splits)

lemma processLoop_activated_refs:
  "rule ` set (activated (fst (processLoop lv rnd ctx budget turn xs st)))
     \<subseteq> set xs \<union> rule ` set (activated (fst st))"
proof (induction xs arbitrary: st)
  case Nil
  show ?case by simp
next
  case (Cons y ys)
  show ?case
    using Cons.IH [of "processRule lv rnd ctx budget turn y st"]
      processRule_refs(1) [of lv rnd ctx budget turn y st]
    by auto
qed

lemma processLoop_skipped_refs:
  "set (skipped (fst (processLoop lv rnd ctx budget turn xs st)))
     \<subseteq> set xs \<union> set (skipped (fst st))"
proof (induction xs arbitrary: st)
  case Nil
  show ?case by simp
next
  case (Cons y ys)
  show ?case
    using Cons.IH [of "processRule lv rnd ctx budget turn y st"]
      processRule_refs(2) [of lv rnd ctx budget turn y st]
    by auto
qed

lemma set_activeRulesOf: "set (activeRulesOf objs rules) = {x \<in> set rules. isActive (objs x)}"
  by (auto simp: activeRulesOf_def)

lemma activeRulesOf_removeAll:
  assumes "\<not> isActive (objs x)"
  shows "activeRulesOf objs (removeAll x rules) = activeRulesOf objs rules"
proof -
  have "filter (\<lambda>y. isActive (objs y)) (removeAll x rules)
          = filter (\<lambda>y. isActive (objs y)) rules"
    using assms by (induction rules) auto
  then show ?thesis by (simp add: activeRulesOf_def)
qed

text \<open>The loop reads the budget from its argument, not from the context.\<close>

lemma processRule_ctx_budget:
  "processRule lv rnd (ctx\<lparr>tokenBudget := b\<rparr>) budget turn x st
     = processRule lv rnd ctx budget turn x st"
proof -
  have a: "collectScanText r (ctx\<lparr>tokenBudget := b\<rparr>) = collectScanText r ctx" for r
    by (simp add: collectScanText_def resolveDepth_def)
  have b: "primaryMatchOf r (ctx\<lparr>tokenBudget := b\<rparr>) t = primaryMatchOf r ctx t" for r t
    by (simp add: primaryMatchOf_def)
  have c: "secondaryMatchOf r (ctx\<lparr>tokenBudget := b\<rparr>) t = secondaryMatchOf r ctx t" for r t
    by (simp add: secondaryMatchOf_def)
  have d: "logicResultOf lv r (ctx\<lparr>tokenBudget := b\<rparr>) t = logicResultOf lv r ctx t" for r t
    by (simp add: logicResultOf_def b c)
  show ?thesis
    by (simp add: processRule_def a b c d Let_def cong: if_cong)
qed

lemma processLoop_ctx_budget:
  "processLoop lv rnd (ctx\<lparr>tokenBudget := b\<rparr>) budget turn xs st
     = processLoop lv rnd ctx budget turn xs st"
  by (induction xs arbitrary: st) (simp_all add: processRule_ctx_budget)

section \<open>Numbers in decimal, and the footer read back\<close>

lemma digitValue_digitChar: "d < 10 \<Longrightarrow> digitValue (digitChar d) = d"
proof -
  assume "d < 10"
  then have "d = 0 \<or> d = 1 \<or> d = 2 \<or> d = 3 \<or> d = 4 \<or> d = 5 \<or> d = 6 \<or> d = 7
      \<or> d = 8 \<or> d = 9"
    by arith
  then show ?thesis
    by (elim disjE) (simp_all add: digitValue_def digitChar_def)
qed

lemma isDigit_digitChar: "d < 10 \<Longrightarrow> isDigit (digitChar d)"
proof -
  assume "d < 10"
  then have "digitChar d \<in> set ''0123456789''"
    unfolding digitChar_def by (intro nth_mem) simp
  then show ?thesis by (simp only: isDigit_def)
qed

lemma showNat_digits: "\<forall>c \<in> set (showNat n). isDigit c"
proof (induction n rule: showNat.induct)
  case (1 n)
  show ?case
  proof (cases "n < 10")
    case True
    then show ?thesis by (subst showNat.simps) (simp add: isDigit_digitChar)
  next
    case False
    then have "\<forall>c \<in> set (showNat (n div 10)). isDigit c" using 1 by simp
    moreover have "isDigit (digitChar (n mod 10))" by (simp add: isDigit_digitChar)
    ultimately show ?thesis using False by (subst showNat.simps) simp
  qed
qed

lemma showNat_not_empty: "showNat n \<noteq> []"
  by (subst showNat.simps) simp

lemma readNat_snoc: "readNat (s @ [c]) = 10 * readNat s + digitValue c"
  by (simp add: readNat_def)

lemma readNat_showNat: "readNat (showNat n) = n"
proof (induction n rule: showNat.induct)
  case (1 n)
  show ?case
  proof (cases "n < 10")
    case True
    then show ?thesis
      by (subst showNat.simps) (simp add: readNat_def digitValue_digitChar)
  next
    case False
    then have "readNat (showNat (n div 10)) = n div 10" using 1 by simp
    then show ?thesis
      using False by (subst showNat.simps) (simp add: readNat_snoc digitValue_digitChar)
  qed
qed

lemma minus_not_digit: "\<not> isDigit CHR ''-''"
  by (simp add: isDigit_def)

lemma readInt_showInt: "readInt (showInt i) = i"
proof (cases "i < 0")
  case True
  then show ?thesis by (simp add: readInt_def showInt_def readNat_showNat)
next
  case False
  obtain c cs where s: "showNat (nat i) = c # cs"
    using showNat_not_empty [of "nat i"] by (cases "showNat (nat i)") auto
  have "isDigit c" using showNat_digits [of "nat i"] s by simp
  then have "c \<noteq> CHR ''-''" using minus_not_digit by auto
  then have "readInt (c # cs) = int (readNat (c # cs))" by (simp add: readInt_def)
  then show ?thesis using False readNat_showNat [of "nat i"] by (simp add: showInt_def s)
qed

lemma showInt_chars: "\<forall>c \<in> set (showInt i). isDigit c \<or> c = CHR ''-''"
  using showNat_digits by (simp add: showInt_def)

lemma trailing_append:
  assumes "\<forall>c \<in> set ys. P c" and "\<not> P x"
  shows "trailing P (xs @ [x] @ ys) = ys"
proof -
  have "\<forall>c \<in> set (rev ys). P c"
    using assms(1) by simp
  then have "takeWhile P (rev ys @ (x # rev xs)) = rev ys"
    using assms(2) by (simp add: takeWhile_append)
  then show ?thesis by (simp add: trailing_def)
qed

lemma endsWith_append [simp]: "endsWith e (s @ e)"
  by (simp add: endsWith_def)

lemma dropEnd_append [simp]: "dropEnd (length e) (s @ e) = s"
  by (simp add: dropEnd_def)

lemma footerMiddle_last: "\<exists>m. footerMiddle = m @ '' ''"
  by (simp add: footerMiddle_def)

lemma footerStart_last: "\<exists>m. footerStart = m @ '' ''"
  by (simp add: footerStart_def)

lemma readFooter_footer:
  "readFooter (body @ footerStart @ showNat n @ footerMiddle @ showInt t @ footerEnd) = Some (n, t)"
proof -
  obtain m where m: "footerMiddle = m @ '' ''" using footerMiddle_last by blast
  obtain s where s: "footerStart = s @ '' ''" using footerStart_last by blast
  let ?s1 = "body @ footerStart @ showNat n @ footerMiddle @ showInt t"
  let ?s2 = "body @ footerStart @ showNat n @ footerMiddle"
  let ?s3 = "body @ footerStart @ showNat n"
  have e1: "endsWith footerEnd (?s1 @ footerEnd)" by (rule endsWith_append)
  have d1: "dropEnd (length footerEnd) (?s1 @ footerEnd) = ?s1" by (rule dropEnd_append)
  have "trailing (\<lambda>c. isDigit c \<or> c = CHR ''-'') ((body @ footerStart @ showNat n @ m) @ [CHR '' ''] @ showInt t) = showInt t"
  proof (rule trailing_append)
    show "\<forall>c \<in> set (showInt t). isDigit c \<or> c = CHR ''-''" by (rule showInt_chars)
    show "\<not> (isDigit CHR '' '' \<or> CHR '' '' = CHR ''-'')" by (simp add: isDigit_def)
  qed
  then have t1: "trailing (\<lambda>c. isDigit c \<or> c = CHR ''-'') ?s1 = showInt t"
    by (simp add: m)
  have d2: "dropEnd (length (showInt t)) ?s1 = ?s2"
    using dropEnd_append [of "showInt t" ?s2] by simp
  have e2: "endsWith footerMiddle ?s2"
    using endsWith_append [of footerMiddle ?s3] by simp
  have d3: "dropEnd (length footerMiddle) ?s2 = ?s3"
    using dropEnd_append [of footerMiddle ?s3] by simp
  have "trailing isDigit ((body @ s) @ [CHR '' ''] @ showNat n) = showNat n"
  proof (rule trailing_append)
    show "\<forall>c \<in> set (showNat n). isDigit c" by (rule showNat_digits)
    show "\<not> isDigit CHR '' ''" by (simp add: isDigit_def)
  qed
  then have t3: "trailing isDigit ?s3 = showNat n"
    by (simp add: s)
  have d4: "dropEnd (length (showNat n)) ?s3 = body @ footerStart"
    using dropEnd_append [of "showNat n" "body @ footerStart"] by simp
  have e4: "endsWith footerStart (body @ footerStart)" by (rule endsWith_append)
  have "readFooter (?s1 @ footerEnd) = Some (n, t)"
    unfolding readFooter_def Let_def d1 t1 d2 d3 t3 d4
    using e1 e2 e4 by (simp add: readNat_showNat readInt_showInt)
  then show ?thesis by simp
qed

section \<open>Folds that append\<close>




section \<open>What the loop does to the rules and to the history\<close>

lemma touchRule_rule_id [simp]: "rule_id (touchRule turn r) = rule_id r"
  by (simp add: touchRule_def)

lemma touchRule_lastActivated [simp]: "lastActivated (touchRule turn r) = Some turn"
  by (simp add: touchRule_def)

lemma touchRule_count:
  "activationCount r = Some c \<Longrightarrow> activationCount (touchRule turn r) = Some (c + 1)"
  by (simp add: touchRule_def orNumber_def)

lemma processLoop_effects:
  "\<exists>new. activated (fst (processLoop lv rnd ctx budget turn xs st)) = activated (fst st) @ new
     \<and> rule ` set new \<subseteq> set xs
     \<and> (\<forall>y. rule_id (objects (snd (processLoop lv rnd ctx budget turn xs st)) y)
              = rule_id (objects (snd st) y))
     \<and> (\<forall>y. y \<notin> rule ` set new \<longrightarrow>
              objects (snd (processLoop lv rnd ctx budget turn xs st)) y = objects (snd st) y)
     \<and> (\<forall>k. k \<notin> (\<lambda>a. rule_id (objects (snd st) (rule a))) ` set new \<longrightarrow>
              activationHistory (snd (processLoop lv rnd ctx budget turn xs st)) k
                = activationHistory (snd st) k)
     \<and> (distinct (map (\<lambda>x. rule_id (objects (snd st) x)) xs) \<longrightarrow>
          (\<forall>a \<in> set new.
              objects (snd (processLoop lv rnd ctx budget turn xs st)) (rule a)
                = touchRule turn (objects (snd st) (rule a))
            \<and> activationHistory (snd (processLoop lv rnd ctx budget turn xs st))
                  (rule_id (objects (snd st) (rule a)))
                = Some (orList (activationHistory (snd st) (rule_id (objects (snd st) (rule a)))) []
                        @ [turn])))"
proof (induction xs arbitrary: st)
  case Nil
  show ?case by simp
next
  case (Cons x xs)
  let ?st1 = "processRule lv rnd ctx budget turn x st"
  let ?st' = "processLoop lv rnd ctx budget turn xs ?st1"
  let ?id = "\<lambda>y. rule_id (objects (snd st) y)"
  let ?id1 = "\<lambda>y. rule_id (objects (snd ?st1) y)"
  obtain new1 where
    n1: "activated (fst ?st') = activated (fst ?st1) @ new1"
    and n2: "rule ` set new1 \<subseteq> set xs"
    and n3: "\<forall>y. rule_id (objects (snd ?st') y) = ?id1 y"
    and n4: "\<forall>y. y \<notin> rule ` set new1 \<longrightarrow> objects (snd ?st') y = objects (snd ?st1) y"
    and n5: "\<forall>k. k \<notin> (\<lambda>a. ?id1 (rule a)) ` set new1 \<longrightarrow>
               activationHistory (snd ?st') k = activationHistory (snd ?st1) k"
    and n6: "distinct (map ?id1 xs) \<longrightarrow>
          (\<forall>a \<in> set new1.
              objects (snd ?st') (rule a) = touchRule turn (objects (snd ?st1) (rule a))
            \<and> activationHistory (snd ?st') (?id1 (rule a))
                = Some (orList (activationHistory (snd ?st1) (?id1 (rule a))) [] @ [turn]))"
    using Cons.IH [of ?st1] by blast
  have loop: "processLoop lv rnd ctx budget turn (x # xs) st = ?st'"
    by simp
  from processRule_shape [of lv rnd ctx budget turn x st]
  show ?case
  proof (elim disjE conjE exE)
    assume same: "activated (fst ?st1) = activated (fst st)"
      "objects (snd ?st1) = objects (snd st)"
      "activationHistory (snd ?st1) = activationHistory (snd st)"
    show ?thesis
      unfolding loop
      apply (rule exI [of _ new1])
      using n1 n2 n3 n4 n5 n6 same by auto
  next
    fix a
    assume a: "rule a = x"
      and act: "activated (fst ?st1) = activated (fst st) @ [a]"
      and obj: "objects (snd ?st1) = (objects (snd st))(x := touchRule turn (objects (snd st) x))"
      and hist: "activationHistory (snd ?st1) =
          (activationHistory (snd st))(?id x \<mapsto> orList (activationHistory (snd st) (?id x)) [] @ [turn])"
    have ids: "?id1 y = ?id y" for y
      by (simp add: obj)
    have c1: "activated (fst ?st') = activated (fst st) @ (a # new1)"
      using n1 act by simp
    have c2: "rule ` set (a # new1) \<subseteq> set (x # xs)"
      using n2 a by auto
    have c3: "\<forall>y. rule_id (objects (snd ?st') y) = ?id y"
      using n3 ids by simp
    have c4: "\<forall>y. y \<notin> rule ` set (a # new1) \<longrightarrow> objects (snd ?st') y = objects (snd st) y"
      using n4 a obj by auto
    have c5: "\<forall>k. k \<notin> (\<lambda>a. ?id (rule a)) ` set (a # new1) \<longrightarrow>
               activationHistory (snd ?st') k = activationHistory (snd st) k"
    proof (intro allI impI)
      fix k
      assume k: "k \<notin> (\<lambda>a. ?id (rule a)) ` set (a # new1)"
      then have "k \<noteq> ?id x" and "k \<notin> (\<lambda>a. ?id1 (rule a)) ` set new1"
        using a ids by auto
      then show "activationHistory (snd ?st') k = activationHistory (snd st) k"
        using n5 hist by simp
    qed
    have c6: "distinct (map ?id (x # xs)) \<longrightarrow>
          (\<forall>b \<in> set (a # new1).
              objects (snd ?st') (rule b) = touchRule turn (objects (snd st) (rule b))
            \<and> activationHistory (snd ?st') (?id (rule b))
                = Some (orList (activationHistory (snd st) (?id (rule b))) [] @ [turn]))"
    proof (intro impI ballI)
      fix b
      assume d: "distinct (map ?id (x # xs))" and b: "b \<in> set (a # new1)"
      from d have fresh: "?id x \<notin> ?id ` set xs" and dxs: "distinct (map ?id1 xs)"
        using ids by simp_all
      from fresh have xnot: "x \<notin> set xs" by auto
      from n6 dxs have tail: "\<forall>a \<in> set new1.
              objects (snd ?st') (rule a) = touchRule turn (objects (snd ?st1) (rule a))
            \<and> activationHistory (snd ?st') (?id1 (rule a))
                = Some (orList (activationHistory (snd ?st1) (?id1 (rule a))) [] @ [turn])"
        by blast
      show "objects (snd ?st') (rule b) = touchRule turn (objects (snd st) (rule b))
            \<and> activationHistory (snd ?st') (?id (rule b))
                = Some (orList (activationHistory (snd st) (?id (rule b))) [] @ [turn])"
      proof (cases "b \<in> set new1")
        case True
        then have rb: "rule b \<in> set xs" using n2 by auto
        then have "rule b \<noteq> x" using xnot by auto
        moreover have "?id (rule b) \<noteq> ?id x" using rb fresh by (metis image_eqI)
        ultimately show ?thesis
          using tail True ids obj hist by simp
      next
        case False
        then have ba: "b = a" using b by simp
        have "x \<notin> rule ` set new1" using n2 xnot by auto
        then have o: "objects (snd ?st') x = objects (snd ?st1) x" using n4 by simp
        have "?id x \<notin> (\<lambda>a. ?id1 (rule a)) ` set new1"
          using n2 fresh ids by auto
        then have h: "activationHistory (snd ?st') (?id x) = activationHistory (snd ?st1) (?id x)"
          using n5 by simp
        show ?thesis
          using o h obj hist ba a by simp
      qed
    qed
    show ?thesis
      unfolding loop
      apply (rule exI [of _ "a # new1"])
      using c1 c2 c3 c4 c5 c6 by blast
  qed
qed

lemma processRule_metadata:
  "objects (snd (processRule lv rnd ctx budget turn x st)) y = objects (snd st) y
   \<or> objects (snd (processRule lv rnd ctx budget turn x st)) y = touchRule turn (objects (snd st) y)"
  using processRule_shape [of lv rnd ctx budget turn x st]
  by (elim disjE conjE exE) simp_all

lemma processLoop_count:
  "activationCount (objects (snd st) y) = Some c \<Longrightarrow>
   \<exists>c'. activationCount (objects (snd (processLoop lv rnd ctx budget turn xs st)) y) = Some c'
        \<and> c \<le> c'"
proof (induction xs arbitrary: st c)
  case Nil
  then show ?case by simp
next
  case (Cons x xs)
  let ?st1 = "processRule lv rnd ctx budget turn x st"
  from processRule_metadata [of lv rnd ctx budget turn x st y]
  have "\<exists>c1. activationCount (objects (snd ?st1) y) = Some c1 \<and> c \<le> c1"
  proof
    assume "objects (snd ?st1) y = objects (snd st) y"
    then show ?thesis using Cons.prems by simp
  next
    assume "objects (snd ?st1) y = touchRule turn (objects (snd st) y)"
    then show ?thesis using Cons.prems by (simp add: touchRule_count)
  qed
  then obtain c1 where c1: "activationCount (objects (snd ?st1) y) = Some c1" "c \<le> c1"
    by blast
  from Cons.IH [OF c1(1)] obtain c' where
    "activationCount (objects (snd (processLoop lv rnd ctx budget turn xs ?st1)) y) = Some c'"
    "c1 \<le> c'"
    by blast
  then show ?case using c1(2) by auto
qed

lemma processLoop_last:
  "lastActivated (objects (snd (processLoop lv rnd ctx budget turn xs st)) y)
     = lastActivated (objects (snd st) y)
   \<or> lastActivated (objects (snd (processLoop lv rnd ctx budget turn xs st)) y) = Some turn"
proof (induction xs arbitrary: st)
  case Nil
  show ?case by simp
next
  case (Cons x xs)
  let ?st1 = "processRule lv rnd ctx budget turn x st"
  have "lastActivated (objects (snd ?st1) y) = lastActivated (objects (snd st) y)
        \<or> lastActivated (objects (snd ?st1) y) = Some turn"
    using processRule_metadata [of lv rnd ctx budget turn x st y] by auto
  then show ?case
    using Cons.IH [of ?st1] by auto
qed

lemma processRule_activated_turn:
  assumes "\<forall>a \<in> set (activated (fst st)). lastActivated (objects (snd st) (rule a)) = Some turn"
  shows "\<forall>a \<in> set (activated (fst (processRule lv rnd ctx budget turn x st))).
      lastActivated (objects (snd (processRule lv rnd ctx budget turn x st)) (rule a)) = Some turn"
  using processRule_shape [of lv rnd ctx budget turn x st]
proof (elim disjE conjE exE)
  assume "activated (fst (processRule lv rnd ctx budget turn x st)) = activated (fst st)"
    "objects (snd (processRule lv rnd ctx budget turn x st)) = objects (snd st)"
  then show ?thesis using assms by simp
next
  fix a
  assume "rule a = x"
    "activated (fst (processRule lv rnd ctx budget turn x st)) = activated (fst st) @ [a]"
    "objects (snd (processRule lv rnd ctx budget turn x st))
       = (objects (snd st))(x := touchRule turn (objects (snd st) x))"
  then show ?thesis using assms by simp
qed

lemma processLoop_activated_turn:
  "(\<forall>a \<in> set (activated (fst st)). lastActivated (objects (snd st) (rule a)) = Some turn) \<Longrightarrow>
   \<forall>a \<in> set (activated (fst (processLoop lv rnd ctx budget turn xs st))).
      lastActivated (objects (snd (processLoop lv rnd ctx budget turn xs st)) (rule a)) = Some turn"
proof (induction xs arbitrary: st)
  case Nil
  then show ?case by simp
next
  case (Cons x xs)
  show ?case
    using Cons.IH [OF processRule_activated_turn [OF Cons.prems]] by simp
qed

section \<open>Runs of the examples\<close>

text \<open>
  Two rules of weight 3000 under a budget of 5000: the one of higher priority is
  admitted, the other is skipped for the budget, in whichever order they are given.
\<close>

lemma budget_pair_run:
  assumes "x1 \<noteq> x2"
    and "rules = [x1, x2] \<or> rules = [x2, x1]"
    and "tokenBudget ctx = Some 5000"
    and "isActive (objects w x1)" and "order (objects w x1) = Some 10"
    and "orNumber (tokenWeight (objects w x1)) (estimateTokens (content (objects w x1))) = 3000"
    and "maxActivationsPerTurn (objects w x1) = None" and "probability (objects w x1) = None"
    and "collectScanText (objects w x1) ctx \<noteq> []"
    and "logicResultOf lv (objects w x1) ctx (collectScanText (objects w x1) ctx)
           = (True, reason, matched)"
    and "isActive (objects w x2)" and "order (objects w x2) = Some 5"
    and "orNumber (tokenWeight (objects w x2)) (estimateTokens (content (objects w x2))) = 3000"
    and "maxActivationsPerTurn (objects w x2) = None" and "probability (objects w x2) = None"
    and "collectScanText (objects w x2) ctx \<noteq> []"
    and "fst (logicResultOf lv (objects w x2) ctx (collectScanText (objects w x2) ctx))"
  shows "processRules lv rnd rules ctx w =
     (\<lparr>activatedRules =
          [\<lparr>rule = x1, activationReason = reason, matchedKeywords = matched,
            tokenCost = 3000, priority = 10\<rparr>],
        totalTokens = 3000, budgetExceeded = False, skippedRules = [x2]\<rparr>,
      say (WouldExceedBudget (ruleLabel (objects w x2)))
        (say (RuleActivated (ruleLabel (objects w x1)) reason)
           (recordActivation x1 (resolveTurn ctx) w)))"
proof -
  let ?turn = "resolveTurn ctx"
  let ?p0 = "\<lparr>activated = [], skipped = [], total = 0\<rparr>"
  have budget: "resolveBudget ctx = 5000"
    using assms(3) by (simp add: resolveBudget_def orNumber_def)
  have active: "activeRulesOf (objects w) rules = [x1, x2]"
    using assms(1,2,4,5,11,12) by (auto simp: activeRulesOf_def orNumber_def)
  let ?a = "\<lparr>rule = x1, activationReason = reason, matchedKeywords = matched,
            tokenCost = 3000, priority = 10\<rparr>"
  let ?w1 = "say (RuleActivated (ruleLabel (objects w x1)) reason)
        (recordActivation x1 ?turn (w\<lparr>randomCalls := randomCalls w\<rparr>))"
  have step1: "processRule lv rnd ctx 5000 ?turn x1 (?p0, w) =
      (?p0\<lparr>activated := [?a], total := 3000\<rparr>, ?w1)"
    using processRule_admitted [of w x1 ?turn rnd "randomCalls w" ctx lv reason matched ?p0 5000]
      assms(5,6,7,8,9,10)
    by (simp add: checkActivationLimits_def checkProbability_def) (simp add: orNumber_def)
  have obj2: "objects ?w1 x2 = objects w x2"
    using assms(1) by simp
  have step2: "processRule lv rnd ctx 5000 ?turn x2 (?p0\<lparr>activated := [?a], total := 3000\<rparr>, ?w1) =
      (skip x2 (?p0\<lparr>activated := [?a], total := 3000\<rparr>),
       say (WouldExceedBudget (ruleLabel (objects w x2))) ?w1)"
    using processRule_over_budget [of ?w1 x2 ?turn rnd "randomCalls ?w1" ctx lv 5000
        "?p0\<lparr>activated := [?a], total := 3000\<rparr>"]
      assms(13,14,15,16,17) obj2
    by (simp add: checkActivationLimits_def checkProbability_def)
  have loop: "processLoop lv rnd ctx 5000 ?turn [x1, x2] (?p0, w) =
      (skip x2 (?p0\<lparr>activated := [?a], total := 3000\<rparr>),
       say (WouldExceedBudget (ruleLabel (objects w x2))) ?w1)"
    by (simp only: processLoop.simps step1 step2)
  show ?thesis
    unfolding processRules_def Let_def budget active loop
    by (simp add: skip_def)
qed

lemma budgetRules_fields:
  "tokenBudget budgetContext = Some 5000"
  "isActive (objects (newEngine budgetRules) 0)"
  "order (objects (newEngine budgetRules) 0) = Some 10"
  "orNumber (tokenWeight (objects (newEngine budgetRules) 0))
     (estimateTokens (content (objects (newEngine budgetRules) 0))) = 3000"
  "maxActivationsPerTurn (objects (newEngine budgetRules) 0) = None"
  "probability (objects (newEngine budgetRules) 0) = None"
  "isActive (objects (newEngine budgetRules) (Suc 0))"
  "order (objects (newEngine budgetRules) (Suc 0)) = Some 5"
  "orNumber (tokenWeight (objects (newEngine budgetRules) (Suc 0)))
     (estimateTokens (content (objects (newEngine budgetRules) (Suc 0)))) = 3000"
  "maxActivationsPerTurn (objects (newEngine budgetRules) (Suc 0)) = None"
  "probability (objects (newEngine budgetRules) (Suc 0)) = None"
  by (simp_all add: newEngine_def budgetRules_def budgetContext_def plainRule_def
      emptyContext_def orNumber_def)

lemma budgetRules_objects: "objects (newEngine budgetRules) = budgetRules"
  by (simp add: newEngine_def)

lemma budgetRules_labels:
  "ruleLabel (budgetRules 0) = ''r1''" "ruleLabel (budgetRules (Suc 0)) = ''r2''"
  "rule_id (budgetRules 0) = ''r1''" "rule_id (budgetRules (Suc 0)) = ''r2''"
  by (simp_all add: ruleLabel_def orString_def budgetRules_def plainRule_def)

lemma budgetRules_gates:
  "collectScanText (objects (newEngine budgetRules) 0) budgetContext \<noteq> []"
  "logicResultOf logicNumber (objects (newEngine budgetRules) 0) budgetContext
     (collectScanText (objects (newEngine budgetRules) 0) budgetContext)
     = (True, ''AND_ANY: Matched 1 keywords'', [''dragon''])"
  "collectScanText (objects (newEngine budgetRules) (Suc 0)) budgetContext \<noteq> []"
  "fst (logicResultOf logicNumber (objects (newEngine budgetRules) (Suc 0)) budgetContext
          (collectScanText (objects (newEngine budgetRules) (Suc 0)) budgetContext))"
  by (simp_all add: budgetRules_objects budgetRules_text budgetRules_logic_0
      budgetRules_logic_1)

lemma budgetRules_run:
  "processRules logicNumber rnd [Suc 0, 0] budgetContext (newEngine budgetRules) =
     (\<lparr>activatedRules =
          [\<lparr>rule = 0, activationReason = ''AND_ANY: Matched 1 keywords'',
            matchedKeywords = [''dragon''], tokenCost = 3000, priority = 10\<rparr>],
        totalTokens = 3000, budgetExceeded = False, skippedRules = [Suc 0]\<rparr>,
      say (WouldExceedBudget ''r2'')
        (say (RuleActivated ''r1'' ''AND_ANY: Matched 1 keywords'')
           (recordActivation 0 0 (newEngine budgetRules))))"
proof -
  have ne: "(0::nat) \<noteq> Suc 0" "[Suc 0, 0] = [0, Suc 0] \<or> [Suc 0, 0] = [Suc 0, (0::nat)]"
    by simp_all
  have turn: "resolveTurn budgetContext = 0"
    by (simp add: resolveTurn_def orNumber_def budgetContext_def emptyContext_def)
  show ?thesis
    using budget_pair_run [OF ne budgetRules_fields(1) budgetRules_fields(2,3,4,5,6)
        budgetRules_gates(1,2) budgetRules_fields(7,8,9,10,11) budgetRules_gates(3,4), of rnd]
    by (simp add: budgetRules_objects budgetRules_labels turn)
qed

text \<open>The rule of \<open>seenRules\<close> is activated in the context of any turn.\<close>

lemma seenRules_text: "collectScanText (seenRules x) (turnContext t) = ''orc''"
  by (simp add: collectScanText_def seenRules_def turnContext_def plainRule_def
      emptyContext_def trim_def isWhitespace_def Let_def)

lemma seenRules_logic:
  "logicResultOf logicNumber (seenRules x) (turnContext t) ''orc''
     = (True, ''AND_ANY: Matched 1 keywords'', [''orc''])"
  by (simp add: logicResultOf_def primaryMatchOf_def secondaryMatchOf_def checkKeywordMatch_def
      evaluateRuleLogic_def seenRules_def turnContext_def plainRule_def emptyContext_def
      orList_def orFlag_def flagOrFalse_def keywordMatches_def trim_def
      isWhitespace_def toLowerCase_def toLowerChar_def sameChar_def resolveLogic_def
      hasKeywords_def showNat.simps digitChar_def Let_def)

lemma seenRules_run:
  "processRules logicNumber rnd [0] (turnContext t) (newEngine seenRules) =
     (\<lparr>activatedRules =
          [\<lparr>rule = 0, activationReason = ''AND_ANY: Matched 1 keywords'',
            matchedKeywords = [''orc''], tokenCost = 0, priority = 0\<rparr>],
        totalTokens = 0, budgetExceeded = False, skippedRules = []\<rparr>,
      say (RuleActivated ''r'' ''AND_ANY: Matched 1 keywords'')
        (recordActivation 0 t (newEngine seenRules)))"
proof -
  let ?w = "newEngine seenRules"
  let ?p0 = "\<lparr>activated = [], skipped = [], total = 0\<rparr>"
  have o: "objects ?w 0 = seenRules 0"
    by (simp add: newEngine_def)
  have turn: "resolveTurn (turnContext t) = t"
    by (simp add: resolveTurn_def orNumber_def turnContext_def emptyContext_def)
  have budget: "resolveBudget (turnContext t) = 5000"
    by (simp add: resolveBudget_def orNumber_def turnContext_def emptyContext_def)
  have g1: "checkActivationLimits (activationHistory ?w) (objects ?w 0) t"
    by (simp add: newEngine_def checkActivationLimits_def seenRules_def plainRule_def)
  have g2: "checkProbability rnd (objects ?w 0) (randomCalls ?w) = (True, 0)"
    by (simp add: newEngine_def checkProbability_def seenRules_def plainRule_def)
  have g3: "collectScanText (objects ?w 0) (turnContext t) \<noteq> []"
    by (simp add: o seenRules_text)
  have g4: "logicResultOf logicNumber (objects ?w 0) (turnContext t)
              (collectScanText (objects ?w 0) (turnContext t))
            = (True, ''AND_ANY: Matched 1 keywords'', [''orc''])"
    by (simp add: o seenRules_text seenRules_logic)
  have cost: "orNumber (tokenWeight (objects ?w 0)) (estimateTokens (content (objects ?w 0))) = 0"
    by (simp add: newEngine_def seenRules_def plainRule_def orNumber_def estimateTokens_def)
  have g5: "total ?p0 + orNumber (tokenWeight (objects ?w 0))
                (estimateTokens (content (objects ?w 0))) \<le> 5000"
    by (simp add: cost)
  note step = processRule_admitted [OF g1 g2 g3 g4 g5]
  have active: "activeRulesOf (objects ?w) [0] = [0]"
    by (simp add: activeRulesOf_def newEngine_def seenRules_def plainRule_def)
  have label: "ruleLabel (objects ?w 0) = ''r''" "orNumber (order (objects ?w 0)) 0 = 0"
    by (simp_all add: newEngine_def ruleLabel_def orString_def orNumber_def seenRules_def
        plainRule_def)
  have same: "?w\<lparr>randomCalls := 0\<rparr> = ?w"
    by (simp add: newEngine_def)
  show ?thesis
    unfolding processRules_def Let_def active processLoop.simps turn budget step cost label same
    by simp
qed

text \<open>The rule of \<open>flagRules\<close> is skipped: its keyword is not found.\<close>

lemma flagRules_run:
  "fst (processRules logicNumber rnd [0] flagContext (newEngine flagRules)) =
     \<lparr>activatedRules = [], totalTokens = 0, budgetExceeded = False, skippedRules = [0]\<rparr>"
proof -
  let ?w = "newEngine flagRules"
  have o: "objects ?w 0 = flagRules 0"
    by (simp add: newEngine_def)
  have g1: "checkActivationLimits (activationHistory ?w) (objects ?w 0) t" for t
    by (simp add: newEngine_def checkActivationLimits_def flagRules_def plainRule_def)
  have g2: "checkProbability rnd (objects ?w 0) (randomCalls ?w) = (True, 0)"
    by (simp add: newEngine_def checkProbability_def flagRules_def plainRule_def)
  have g3: "collectScanText (objects ?w 0) flagContext \<noteq> []"
    by (simp add: o flagRules_text)
  have g4: "logicResultOf logicNumber (objects ?w 0) flagContext
              (collectScanText (objects ?w 0) flagContext)
            = (False, ''Logic AND_ANY not satisfied'', [])"
    by (simp add: o flagRules_text flagRules_logic)
  note step = processRule_logic_failed [OF g1 g2 g3 g4]
  have active: "activeRulesOf (objects ?w) [0] = [0]"
    by (simp add: activeRulesOf_def newEngine_def flagRules_def plainRule_def)
  have budget: "resolveBudget flagContext = 5000"
    by (simp add: resolveBudget_def orNumber_def flagContext_def emptyContext_def)
  show ?thesis
    unfolding processRules_def Let_def active processLoop.simps step budget
    by (simp add: skip_def)
qed

text \<open>The same for a whole call, with the list of activated rules of its result.\<close>

lemma processRules_effects:
  assumes "distinct (map (\<lambda>x. rule_id (objects w x)) rules)"
  shows "(\<forall>a \<in> set (activatedRules (fst (processRules lv rnd rules ctx w))).
            objects (snd (processRules lv rnd rules ctx w)) (rule a)
              = touchRule (resolveTurn ctx) (objects w (rule a))
          \<and> activationHistory (snd (processRules lv rnd rules ctx w))
                (rule_id (objects w (rule a)))
              = Some (orList (activationHistory w (rule_id (objects w (rule a)))) []
                      @ [resolveTurn ctx]))
       \<and> (\<forall>x. x \<notin> rule ` set (activatedRules (fst (processRules lv rnd rules ctx w))) \<longrightarrow>
              objects (snd (processRules lv rnd rules ctx w)) x = objects w x)
       \<and> (\<forall>x \<in> set rules.
              x \<notin> rule ` set (activatedRules (fst (processRules lv rnd rules ctx w))) \<longrightarrow>
              activationHistory (snd (processRules lv rnd rules ctx w)) (rule_id (objects w x))
                = activationHistory w (rule_id (objects w x)))
       \<and> (\<forall>k. k \<notin> (\<lambda>a. rule_id (objects w (rule a)))
                     ` set (activatedRules (fst (processRules lv rnd rules ctx w))) \<longrightarrow>
              activationHistory (snd (processRules lv rnd rules ctx w)) k = activationHistory w k)"
proof -
  let ?xs = "activeRulesOf (objects w) rules"
  let ?init = "(\<lparr>activated = [], skipped = [], total = 0\<rparr>, w)"
  let ?st = "processLoop lv rnd ctx (resolveBudget ctx) (resolveTurn ctx) ?xs ?init"
  let ?id = "\<lambda>y. rule_id (objects w y)"
  let ?acts = "activatedRules (fst (processRules lv rnd rules ctx w))"
  have w': "snd (processRules lv rnd rules ctx w) = snd ?st"
    by (simp add: processRules_def Let_def)
  have acts: "set ?acts = set (activated (fst ?st))"
    by (simp add: processRules_def Let_def)
  have sub: "set ?xs \<subseteq> set rules"
    by (auto simp: set_activeRulesOf)
  have "distinct (map ?id (filter (\<lambda>x. isActive (objects w x)) rules))"
    using assms by (rule distinct_map_filter)
  then have "distinct (map ?id ?xs)"
    unfolding activeRulesOf_def by (simp add: distinct_map)
  then have dist: "distinct (map (\<lambda>x. rule_id (objects (snd ?init) x)) ?xs)"
    by simp
  have inj: "inj_on ?id (set rules)"
    using assms by (simp add: distinct_map)
  obtain new where
    n1: "activated (fst ?st) = new"
    and n2: "rule ` set new \<subseteq> set ?xs"
    and n4: "\<forall>y. y \<notin> rule ` set new \<longrightarrow> objects (snd ?st) y = objects w y"
    and n5: "\<forall>k. k \<notin> (\<lambda>a. ?id (rule a)) ` set new \<longrightarrow>
               activationHistory (snd ?st) k = activationHistory w k"
    and n6: "\<forall>a \<in> set new.
              objects (snd ?st) (rule a) = touchRule (resolveTurn ctx) (objects w (rule a))
            \<and> activationHistory (snd ?st) (?id (rule a))
                = Some (orList (activationHistory w (?id (rule a))) [] @ [resolveTurn ctx])"
    using processLoop_effects [of lv rnd ctx "resolveBudget ctx" "resolveTurn ctx" ?xs ?init] dist
    by auto
  have set_new: "set ?acts = set new"
    using acts n1 by simp
  have p1: "\<forall>a \<in> set ?acts.
            objects (snd (processRules lv rnd rules ctx w)) (rule a)
              = touchRule (resolveTurn ctx) (objects w (rule a))
          \<and> activationHistory (snd (processRules lv rnd rules ctx w)) (?id (rule a))
              = Some (orList (activationHistory w (?id (rule a))) [] @ [resolveTurn ctx])"
    unfolding w' set_new using n6 by blast
  have p2: "\<forall>x. x \<notin> rule ` set ?acts \<longrightarrow>
              objects (snd (processRules lv rnd rules ctx w)) x = objects w x"
    unfolding w' set_new using n4 by blast
  have p4: "\<forall>k. k \<notin> (\<lambda>a. ?id (rule a)) ` set ?acts \<longrightarrow>
              activationHistory (snd (processRules lv rnd rules ctx w)) k = activationHistory w k"
    unfolding w' set_new using n5 by blast
  have p3: "\<forall>x \<in> set rules. x \<notin> rule ` set ?acts \<longrightarrow>
              activationHistory (snd (processRules lv rnd rules ctx w)) (?id x)
                = activationHistory w (?id x)"
  proof (intro ballI impI)
    fix x
    assume x: "x \<in> set rules" and nx: "x \<notin> rule ` set ?acts"
    have "?id x \<notin> (\<lambda>a. ?id (rule a)) ` set ?acts"
    proof
      assume "?id x \<in> (\<lambda>a. ?id (rule a)) ` set ?acts"
      then obtain a where a: "a \<in> set ?acts" "?id x = ?id (rule a)" by auto
      then have "rule a \<in> set rules" using set_new n2 sub by auto
      then have "x = rule a" using inj x a(2) by (auto dest: inj_onD)
      then show False using nx a(1) by auto
    qed
    then show "activationHistory (snd (processRules lv rnd rules ctx w)) (?id x)
                = activationHistory w (?id x)"
      using p4 by blast
  qed
  show ?thesis
    using p1 p2 p3 p4 by blast
qed

lemma processRules_untouched:
  assumes "y \<notin> rule ` set (activatedRules (fst (processRules lv rnd rules ctx w)))"
  shows "objects (snd (processRules lv rnd rules ctx w)) y = objects w y"
proof -
  let ?xs = "activeRulesOf (objects w) rules"
  let ?init = "(\<lparr>activated = [], skipped = [], total = 0\<rparr>, w)"
  let ?st = "processLoop lv rnd ctx (resolveBudget ctx) (resolveTurn ctx) ?xs ?init"
  have w': "snd (processRules lv rnd rules ctx w) = snd ?st"
    by (simp add: processRules_def Let_def)
  have acts: "set (activatedRules (fst (processRules lv rnd rules ctx w)))
                = set (activated (fst ?st))"
    by (simp add: processRules_def Let_def)
  obtain new where
    n1: "activated (fst ?st) = new"
    and n4: "\<forall>y. y \<notin> rule ` set new \<longrightarrow> objects (snd ?st) y = objects w y"
    using processLoop_effects [of lv rnd ctx "resolveBudget ctx" "resolveTurn ctx" ?xs ?init]
    by auto
  show ?thesis
    using assms n4 unfolding w' acts n1 by blast
qed

lemma activated_rules_are_active:
  "rule ` set (activatedRules (fst (processRules lv rnd rules ctx w)))
     \<subseteq> {x \<in> set rules. isActive (objects w x)}"
proof -
  let ?xs = "activeRulesOf (objects w) rules"
  let ?init = "(\<lparr>activated = [], skipped = [], total = 0\<rparr>, w)"
  have "rule ` set (activated (fst (processLoop lv rnd ctx (resolveBudget ctx) (resolveTurn ctx)
           ?xs ?init))) \<subseteq> set ?xs"
    using processLoop_activated_refs [of lv rnd ctx "resolveBudget ctx" "resolveTurn ctx"
        ?xs ?init]
    by simp
  then show ?thesis
    by (simp add: processRules_def Let_def set_activeRulesOf)
qed

text \<open>The writes of \<open>touchRule\<close>, the history of an id and the current turn, written out.\<close>

lemma touchRule_written_out:
  "touchRule turn r =
     r\<lparr>lastActivated := Some turn,
       activationCount := Some ((case activationCount r of None \<Rightarrow> 0 | Some c \<Rightarrow> c) + 1)\<rparr>"
  by (simp add: touchRule_def orNumber_def split: option.splits)

lemma touchRule_count_or_zero:
  "(case activationCount (touchRule turn r) of None \<Rightarrow> 0 | Some c \<Rightarrow> c)
     = (case activationCount r of None \<Rightarrow> 0 | Some c \<Rightarrow> c) + 1"
  by (simp add: touchRule_written_out)

lemma orList_written_out: "orList x [] = (case x of None \<Rightarrow> [] | Some h \<Rightarrow> h)"
  by (simp add: orList_def)

lemma resolveTurn_written_out:
  "resolveTurn ctx = (case currentTurn ctx of None \<Rightarrow> 0 | Some t \<Rightarrow> t)"
  by (simp add: resolveTurn_def orNumber_def split: option.splits)

lemma processLoop_count_or_zero:
  "(case activationCount (objects (snd st) y) of None \<Rightarrow> 0 | Some c \<Rightarrow> c)
     \<le> (case activationCount (objects (snd (processLoop lv rnd ctx budget turn xs st)) y) of
          None \<Rightarrow> 0 | Some c \<Rightarrow> c)"
proof (induction xs arbitrary: st)
  case Nil
  show ?case by simp
next
  case (Cons x xs)
  let ?st1 = "processRule lv rnd ctx budget turn x st"
  have "(case activationCount (objects (snd st) y) of None \<Rightarrow> 0 | Some c \<Rightarrow> c)
          \<le> (case activationCount (objects (snd ?st1) y) of None \<Rightarrow> 0 | Some c \<Rightarrow> c)"
    using processRule_metadata [of lv rnd ctx budget turn x st y]
    by (elim disjE) (simp_all add: touchRule_count_or_zero)
  also have "\<dots> \<le> (case activationCount
                        (objects (snd (processLoop lv rnd ctx budget turn xs ?st1)) y) of
                      None \<Rightarrow> 0 | Some c \<Rightarrow> c)"
    by (rule Cons.IH)
  finally show ?case by simp
qed

text \<open>
  Two rule objects as in \<open>seenRules\<close>, the second of which is not active; the first is
  activated in the context of any turn.
\<close>

lemma idleRules_run:
  "processRules logicNumber rnd [0, Suc 0] (turnContext t) (newEngine idleRules) =
     (\<lparr>activatedRules =
          [\<lparr>rule = 0, activationReason = ''AND_ANY: Matched 1 keywords'',
            matchedKeywords = [''orc''], tokenCost = 0, priority = 0\<rparr>],
        totalTokens = 0, budgetExceeded = False, skippedRules = []\<rparr>,
      say (RuleActivated ''r'' ''AND_ANY: Matched 1 keywords'')
        (recordActivation 0 t (newEngine idleRules)))"
proof -
  let ?w = "newEngine idleRules"
  let ?p0 = "\<lparr>activated = [], skipped = [], total = 0\<rparr>"
  have o: "objects ?w 0 = seenRules 0"
    by (simp add: newEngine_def idleRules_def)
  have turn: "resolveTurn (turnContext t) = t"
    by (simp add: resolveTurn_def orNumber_def turnContext_def emptyContext_def)
  have budget: "resolveBudget (turnContext t) = 5000"
    by (simp add: resolveBudget_def orNumber_def turnContext_def emptyContext_def)
  have g1: "checkActivationLimits (activationHistory ?w) (objects ?w 0) t"
    unfolding o by (simp add: newEngine_def checkActivationLimits_def seenRules_def plainRule_def)
  have g2: "checkProbability rnd (objects ?w 0) (randomCalls ?w) = (True, 0)"
    unfolding o by (simp add: newEngine_def checkProbability_def seenRules_def plainRule_def)
  have g3: "collectScanText (objects ?w 0) (turnContext t) \<noteq> []"
    by (simp add: o seenRules_text)
  have g4: "logicResultOf logicNumber (objects ?w 0) (turnContext t)
              (collectScanText (objects ?w 0) (turnContext t))
            = (True, ''AND_ANY: Matched 1 keywords'', [''orc''])"
    by (simp add: o seenRules_text seenRules_logic)
  have cost: "orNumber (tokenWeight (objects ?w 0)) (estimateTokens (content (objects ?w 0))) = 0"
    unfolding o by (simp add: seenRules_def plainRule_def orNumber_def estimateTokens_def)
  have g5: "total ?p0 + orNumber (tokenWeight (objects ?w 0))
                (estimateTokens (content (objects ?w 0))) \<le> 5000"
    by (simp add: cost)
  note step = processRule_admitted [OF g1 g2 g3 g4 g5]
  have active: "activeRulesOf (objects ?w) [0, Suc 0] = [0]"
    by (simp add: activeRulesOf_def newEngine_def idleRules_def seenRules_def plainRule_def)
  have label: "ruleLabel (objects ?w 0) = ''r''" "orNumber (order (objects ?w 0)) 0 = 0"
    unfolding o
    by (simp_all add: ruleLabel_def orString_def orNumber_def seenRules_def plainRule_def)
  have same: "?w\<lparr>randomCalls := 0\<rparr> = ?w"
    by (simp add: newEngine_def)
  show ?thesis
    unfolding processRules_def Let_def active processLoop.simps turn budget step cost label same
    by simp
qed

section \<open>Budget admission\<close>

text \<open>
  Claim C1. Admission to the token budget is greedy in descending priority. Take two
  distinct active rules, R1 of priority 10 and R2 of priority 5, each of token cost 3000
  (the weight of the rule, or the estimate from its content), with no activation cap and
  no probability, whose scan text is not empty and whose keyword logic activates, and a
  budget of 5000. In whichever order the two are given, exactly
  R1 is activated, R2 is skipped with the message that it would exceed the token budget,
  the total is 3000 and \<^verbatim>\<open>budgetExceeded\<close> is false.
\<close>

theorem greedy_budget_admission:
  assumes "x1 \<noteq> x2"
    and "rules = [x1, x2] \<or> rules = [x2, x1]"
    and "tokenBudget ctx = Some 5000"
    and "isActive (objects w x1)" and "order (objects w x1) = Some 10"
    and "orNumber (tokenWeight (objects w x1)) (estimateTokens (content (objects w x1))) = 3000"
    and "maxActivationsPerTurn (objects w x1) = None" and "probability (objects w x1) = None"
    and "collectScanText (objects w x1) ctx \<noteq> []"
    and "fst (logicResultOf lv (objects w x1) ctx (collectScanText (objects w x1) ctx))"
    and "isActive (objects w x2)" and "order (objects w x2) = Some 5"
    and "orNumber (tokenWeight (objects w x2)) (estimateTokens (content (objects w x2))) = 3000"
    and "maxActivationsPerTurn (objects w x2) = None" and "probability (objects w x2) = None"
    and "collectScanText (objects w x2) ctx \<noteq> []"
    and "fst (logicResultOf lv (objects w x2) ctx (collectScanText (objects w x2) ctx))"
  shows "map rule (activatedRules (fst (processRules lv rnd rules ctx w))) = [x1]
       \<and> skippedRules (fst (processRules lv rnd rules ctx w)) = [x2]
       \<and> totalTokens (fst (processRules lv rnd rules ctx w)) = 3000
       \<and> \<not> budgetExceeded (fst (processRules lv rnd rules ctx w))
       \<and> console (snd (processRules lv rnd rules ctx w)) =
           console w @
           [RuleActivated (ruleLabel (objects w x1))
              (fst (snd (logicResultOf lv (objects w x1) ctx
                           (collectScanText (objects w x1) ctx)))),
            WouldExceedBudget (ruleLabel (objects w x2))]"
proof -
  obtain reason matched where lr:
    "logicResultOf lv (objects w x1) ctx (collectScanText (objects w x1) ctx)
       = (True, reason, matched)"
    using assms(10)
    by (cases "logicResultOf lv (objects w x1) ctx (collectScanText (objects w x1) ctx)") auto
  show ?thesis
    using budget_pair_run [OF assms(1-9) lr assms(11-17), of rnd]
    by (simp add: lr)
qed

theorem greedy_budget_admission_witness:
  "map rule (activatedRules (fst (processRules logicNumber (\<lambda>n. 0) [Suc 0, 0] budgetContext
                                   (newEngine budgetRules)))) = [0]
   \<and> skippedRules (fst (processRules logicNumber (\<lambda>n. 0) [Suc 0, 0] budgetContext
                          (newEngine budgetRules))) = [Suc 0]
   \<and> totalTokens (fst (processRules logicNumber (\<lambda>n. 0) [Suc 0, 0] budgetContext
                         (newEngine budgetRules))) = 3000
   \<and> \<not> budgetExceeded (fst (processRules logicNumber (\<lambda>n. 0) [Suc 0, 0] budgetContext
                              (newEngine budgetRules)))
   \<and> console (snd (processRules logicNumber (\<lambda>n. 0) [Suc 0, 0] budgetContext
                     (newEngine budgetRules)))
       = [RuleActivated ''r1'' ''AND_ANY: Matched 1 keywords'', WouldExceedBudget ''r2'']"
proof -
  have ne: "(0::nat) \<noteq> Suc 0" "[Suc 0, 0] = [0, Suc 0] \<or> [Suc 0, 0] = [Suc 0, (0::nat)]"
    by simp_all
  have passes: "fst (logicResultOf logicNumber (objects (newEngine budgetRules) 0) budgetContext
            (collectScanText (objects (newEngine budgetRules) 0) budgetContext))"
    by (simp add: budgetRules_gates(2))
  from greedy_budget_admission [OF ne budgetRules_fields(1) budgetRules_fields(2,3,4,5,6)
      budgetRules_gates(1) passes budgetRules_fields(7,8,9,10,11) budgetRules_gates(3,4),
      of "\<lambda>n. 0"]
  show ?thesis
    by (simp add: budgetRules_objects budgetRules_text budgetRules_logic_0 budgetRules_labels
        newEngine_def)
qed

text \<open>
  Claim C9. When the resolved budget (\<^verbatim>\<open>context.tokenBudget\<close>, or 5000 when that is absent
  or 0) is not negative, the total of a result never exceeds it and the flag
  \<^verbatim>\<open>budgetExceeded\<close> is false.
\<close>

theorem budget_never_exceeded:
  assumes "0 \<le> resolveBudget ctx"
  shows "totalTokens (fst (processRules lv rnd rules ctx w)) \<le> resolveBudget ctx
         \<and> \<not> budgetExceeded (fst (processRules lv rnd rules ctx w))"
proof -
  have "total (fst (processLoop lv rnd ctx (resolveBudget ctx) (resolveTurn ctx)
          (activeRulesOf (objects w) rules) (\<lparr>activated = [], skipped = [], total = 0\<rparr>, w)))
        \<le> resolveBudget ctx"
    using assms by (intro processLoop_total) simp
  then show ?thesis
    by (simp add: processRules_def Let_def)
qed

theorem budget_never_exceeded_witness:
  "0 \<le> resolveBudget budgetContext
   \<and> totalTokens (fst (processRules logicNumber (\<lambda>n. 0) [0, Suc 0] budgetContext
                         (newEngine budgetRules))) \<le> 5000
   \<and> \<not> budgetExceeded (fst (processRules logicNumber (\<lambda>n. 0) [0, Suc 0] budgetContext
                              (newEngine budgetRules)))"
proof -
  have b: "resolveBudget budgetContext = 5000"
    by (simp add: resolveBudget_def orNumber_def budgetContext_def emptyContext_def)
  then have "0 \<le> resolveBudget budgetContext" by simp
  from budget_never_exceeded [OF this, of logicNumber "\<lambda>n. 0" "[0, Suc 0]" "newEngine budgetRules"]
  show ?thesis by (simp add: b)
qed

text \<open>
  Claim C10. The number 0 counts as absent: a rule whose \<^verbatim>\<open>scanDepth\<close> is 0 gets the
  depth of a rule without one, that is the context's depth, or 5 when that is absent or 0
  too, and collects the same text; a context whose \<^verbatim>\<open>tokenBudget\<close> is 0 gets the budget
  5000, and the whole call behaves as with no budget given.
\<close>

theorem zero_counts_as_absent:
  "resolveDepth (r\<lparr>scanDepth := Some 0\<rparr>) ctx = resolveDepth (r\<lparr>scanDepth := None\<rparr>) ctx
   \<and> resolveDepth (r\<lparr>scanDepth := Some 0\<rparr>) (ctx\<lparr>scanDepth_ctx := None\<rparr>) = 5
   \<and> resolveDepth (r\<lparr>scanDepth := Some 0\<rparr>) (ctx\<lparr>scanDepth_ctx := Some d\<rparr>)
       = (if d = 0 then 5 else d)
   \<and> collectScanText (r\<lparr>scanDepth := Some 0\<rparr>) ctx = collectScanText (r\<lparr>scanDepth := None\<rparr>) ctx
   \<and> resolveBudget (ctx\<lparr>tokenBudget := Some 0\<rparr>) = 5000
   \<and> processRules lv rnd rules (ctx\<lparr>tokenBudget := Some 0\<rparr>) w
       = processRules lv rnd rules (ctx\<lparr>tokenBudget := None\<rparr>) w"
proof -
  have "resolveDepth (r\<lparr>scanDepth := Some 0\<rparr>) c = resolveDepth (r\<lparr>scanDepth := None\<rparr>) c"
    for c
    by (simp add: resolveDepth_def orNumber_def)
  then have "collectScanText (r\<lparr>scanDepth := Some 0\<rparr>) ctx
               = collectScanText (r\<lparr>scanDepth := None\<rparr>) ctx"
    by (simp add: collectScanText_def Let_def cong: if_cong option.case_cong)
  then show ?thesis
    by (simp add: resolveDepth_def orNumber_def processRules_def resolveBudget_def
        resolveTurn_def processLoop_ctx_budget)
qed

section \<open>Inactive rules\<close>

text \<open>
  Claim C2. A rule that is not active is in neither list of the result, and it is left
  out before anything is evaluated for it: the call returns the same result, and leaves
  the same state, console and random draws included, as the call on the list without
  that rule.
\<close>

theorem inactive_rule_excluded:
  assumes "\<not> isActive (objects w x)"
  shows "x \<notin> rule ` set (activatedRules (fst (processRules lv rnd rules ctx w)))
       \<and> x \<notin> set (skippedRules (fst (processRules lv rnd rules ctx w)))
       \<and> processRules lv rnd rules ctx w = processRules lv rnd (removeAll x rules) ctx w"
proof -
  let ?st = "processLoop lv rnd ctx (resolveBudget ctx) (resolveTurn ctx)
     (activeRulesOf (objects w) rules) (\<lparr>activated = [], skipped = [], total = 0\<rparr>, w)"
  have x: "x \<notin> set (activeRulesOf (objects w) rules)"
    using assms by (simp add: set_activeRulesOf)
  have "rule ` set (activated (fst ?st)) \<subseteq> set (activeRulesOf (objects w) rules)"
    using processLoop_activated_refs [of lv rnd ctx "resolveBudget ctx" "resolveTurn ctx"
        "activeRulesOf (objects w) rules" "(\<lparr>activated = [], skipped = [], total = 0\<rparr>, w)"]
    by simp
  moreover have "set (skipped (fst ?st)) \<subseteq> set (activeRulesOf (objects w) rules)"
    using processLoop_skipped_refs [of lv rnd ctx "resolveBudget ctx" "resolveTurn ctx"
        "activeRulesOf (objects w) rules" "(\<lparr>activated = [], skipped = [], total = 0\<rparr>, w)"]
    by simp
  ultimately have "x \<notin> rule ` set (activated (fst ?st))" "x \<notin> set (skipped (fst ?st))"
    using x by blast+
  then show ?thesis
    using assms by (simp add: processRules_def Let_def activeRulesOf_removeAll)
qed

theorem inactive_rule_excluded_witness:
  "\<not> isActive (objects (newEngine (budgetRules (2 := (plainRule ''off'')\<lparr>isActive := False\<rparr>))) 2)
   \<and> 2 \<notin> rule ` set (activatedRules (fst (processRules logicNumber (\<lambda>n. 0) [2, 0] budgetContext
        (newEngine (budgetRules (2 := (plainRule ''off'')\<lparr>isActive := False\<rparr>))))))
   \<and> 2 \<notin> set (skippedRules (fst (processRules logicNumber (\<lambda>n. 0) [2, 0] budgetContext
        (newEngine (budgetRules (2 := (plainRule ''off'')\<lparr>isActive := False\<rparr>))))))
   \<and> processRules logicNumber (\<lambda>n. 0) [2, 0] budgetContext
        (newEngine (budgetRules (2 := (plainRule ''off'')\<lparr>isActive := False\<rparr>)))
      = processRules logicNumber (\<lambda>n. 0) [0] budgetContext
        (newEngine (budgetRules (2 := (plainRule ''off'')\<lparr>isActive := False\<rparr>)))"
proof -
  have off: "\<not> isActive (objects (newEngine (budgetRules (2 := (plainRule ''off'')\<lparr>isActive := False\<rparr>))) 2)"
    by (simp add: newEngine_def)
  have r: "removeAll (2::nat) [2, 0] = [0]"
    by simp
  show ?thesis
    using inactive_rule_excluded [OF off, of logicNumber "\<lambda>n. 0" "[2, 0]" budgetContext,
        unfolded r] off
    by blast
qed

section \<open>Matching settings\<close>

text \<open>
  Claim C3, as stated, does not hold: a rule that sets \<^verbatim>\<open>caseSensitive\<close> to \<^verbatim>\<open>false\<close> itself
  is matched with regard to case when the context's default is \<^verbatim>\<open>true\<close>. Its keyword
  \<^verbatim>\<open>Dragon\<close> is not found in the text \<^verbatim>\<open>a dragon\<close> and the rule is skipped, while matching
  with the rule's own settings finds it.
\<close>

theorem rule_setting_overridden_counterexample:
  "caseSensitive (flagRules 0) = Some False
   \<and> primaryMatchOf (flagRules 0) flagContext (collectScanText (flagRules 0) flagContext)
       = (False, [])
   \<and> checkKeywordMatch (collectScanText (flagRules 0) flagContext)
        (orList (keywords' (flagRules 0)) [])
        (caseSensitive (flagRules 0)) (matchWholeWords (flagRules 0)) = (True, [''Dragon''])
   \<and> activatedRules (fst (processRules logicNumber (\<lambda>n. 0) [0] flagContext (newEngine flagRules)))
       = []
   \<and> skippedRules (fst (processRules logicNumber (\<lambda>n. 0) [0] flagContext (newEngine flagRules)))
       = [0]"
proof -
  have run: "activatedRules (fst (processRules logicNumber (\<lambda>n. 0) [0] flagContext
                                    (newEngine flagRules))) = []"
    "skippedRules (fst (processRules logicNumber (\<lambda>n. 0) [0] flagContext
                         (newEngine flagRules))) = [0]"
    by (simp_all add: flagRules_run)
  have own: "caseSensitive (flagRules 0) = Some False"
    by (simp add: flagRules_def plainRule_def)
  have used: "primaryMatchOf (flagRules 0) flagContext (collectScanText (flagRules 0) flagContext)
       = (False, [])"
    by (simp add: flagRules_text flagRules_primary)
  have wanted: "checkKeywordMatch (collectScanText (flagRules 0) flagContext)
        (orList (keywords' (flagRules 0)) [])
        (caseSensitive (flagRules 0)) (matchWholeWords (flagRules 0)) = (True, [''Dragon''])"
    unfolding flagRules_text by (rule flagRules_own_setting)
  show ?thesis
    using own used wanted run by blast
qed

text \<open>
  Claim C3, amended. Keyword matching regards case exactly when the rule's
  \<^verbatim>\<open>caseSensitive\<close> is \<^verbatim>\<open>true\<close> or the context's is, and matches whole words only exactly
  when the rule's \<^verbatim>\<open>matchWholeWords\<close> is \<^verbatim>\<open>true\<close> or the context's is. So a setting that a
  rule has at \<^verbatim>\<open>true\<close> holds whatever the context says, and a setting that a rule has at
  \<^verbatim>\<open>false\<close> counts as not set: the context's default applies.
\<close>

theorem rule_setting_or_context_default:
  "primaryMatchOf r ctx txt =
     checkKeywordMatch txt (orList (keywords' r) [])
       (Some (caseSensitive r = Some True \<or> caseSensitive_ctx ctx = Some True))
       (Some (matchWholeWords r = Some True \<or> matchWholeWords_ctx ctx = Some True))
   \<and> secondaryMatchOf r ctx txt =
     checkKeywordMatch txt (orList (secondaryKeywords r) [])
       (Some (caseSensitive r = Some True \<or> caseSensitive_ctx ctx = Some True))
       (Some (matchWholeWords r = Some True \<or> matchWholeWords_ctx ctx = Some True))"
  by (auto simp: primaryMatchOf_def secondaryMatchOf_def checkKeywordMatch_def orFlag_def
      flagOrFalse_def Let_def split: option.splits)

section \<open>The mode of partial matches\<close>

text \<open>
  Claim C5. Under the mode \<^verbatim>\<open>NOT_ALL\<close> (whose number is not 0, so that it is not taken
  for an absent mode), a rule that is not always active and has at least one keyword
  configured activates exactly when the number of matched keywords, primary and
  secondary together, is greater than 0 and less than the number configured.
\<close>

theorem not_all_activates_on_partial_match:
  assumes "logic r = Some NOT_ALL" and "lv NOT_ALL \<noteq> 0" and "\<not> alwaysActive r"
    and "0 < keywordCount (keywords' r) + keywordCount (secondaryKeywords r)"
  shows "fst (evaluateRuleLogic lv r pm sm scanned) \<longleftrightarrow>
           (0 < length pm + length sm \<and>
            length pm + length sm
              < keywordCount (keywords' r) + keywordCount (secondaryKeywords r))"
  using assms
  by (auto simp: evaluateRuleLogic_def resolveLogic_def hasKeywords_def hasSecondaryKeywords_def
      keywordCount_def Let_def split: option.splits)

theorem not_all_activates_on_partial_match_witness:
  "fst (evaluateRuleLogic logicNumber
          ((plainRule ''r'')\<lparr>logic := Some NOT_ALL, keywords' := Some [''a'', ''b'']\<rparr>)
          [''a''] [] ''a'')
   \<and> \<not> fst (evaluateRuleLogic logicNumber
          ((plainRule ''r'')\<lparr>logic := Some NOT_ALL, keywords' := Some [''a'', ''b'']\<rparr>)
          [] [] ''c'')
   \<and> \<not> fst (evaluateRuleLogic logicNumber
          ((plainRule ''r'')\<lparr>logic := Some NOT_ALL, keywords' := Some [''a'', ''b'']\<rparr>)
          [''a'', ''b''] [] ''a b'')"
proof -
  let ?r = "(plainRule ''r'')\<lparr>logic := Some NOT_ALL, keywords' := Some [''a'', ''b'']\<rparr>"
  have h: "logic ?r = Some NOT_ALL" "logicNumber NOT_ALL \<noteq> 0" "\<not> alwaysActive ?r"
    "0 < keywordCount (keywords' ?r) + keywordCount (secondaryKeywords ?r)"
    by (simp_all add: plainRule_def keywordCount_def)
  show ?thesis
    using not_all_activates_on_partial_match
        [where r = "?r" and lv = logicNumber and pm = "[''a'']" and sm = "[]" and scanned = "''a''",
          OF h]
      not_all_activates_on_partial_match
        [where r = "?r" and lv = logicNumber and pm = "[]" and sm = "[]" and scanned = "''c''", OF h]
      not_all_activates_on_partial_match
        [where r = "?r" and lv = logicNumber and pm = "[''a'', ''b'']" and sm = "[]"
           and scanned = "''a b''", OF h]
    by (simp add: plainRule_def keywordCount_def)
qed

section \<open>Rule metadata and the activation history\<close>

text \<open>
  Claim C4, as stated, does not hold for \<^verbatim>\<open>lastActivated\<close>: an activation writes the
  current turn of the call, whatever the field held. A rule last activated at turn 5 that
  is activated in a call for turn 3 has \<^verbatim>\<open>lastActivated\<close> 3 afterwards.
\<close>

theorem last_activated_decreased_counterexample:
  "lastActivated (objects (newEngine seenRules) 0) = Some 5
   \<and> lastActivated
        (objects (snd (processRules logicNumber (\<lambda>n. 0) [0] (turnContext 3) (newEngine seenRules)))
           0) = Some 3"
  by (simp add: seenRules_run) (simp add: newEngine_def seenRules_def plainRule_def)

text \<open>
  Claim C4, amended. No call decreases \<^verbatim>\<open>activationCount\<close> of any rule object, an absent
  count being read as 0 as the code reads it. A call sets \<^verbatim>\<open>lastActivated\<close> of every rule
  it activates to its current turn (\<^verbatim>\<open>context.currentTurn\<close>, or 0), so \<^verbatim>\<open>lastActivated\<close>
  does not decrease in a call whose current turn is not below the value the field had.
  A rule that the call does not activate keeps both fields, whatever the turn.
\<close>

theorem metadata_never_decreases:
  "(\<forall>c. activationCount (objects w y) = Some c \<longrightarrow>
        (\<exists>c'. activationCount (objects (snd (processRules lv rnd rules ctx w)) y) = Some c'
              \<and> c \<le> c'))
   \<and> (\<forall>t. lastActivated (objects w y) = Some t \<and> t \<le> resolveTurn ctx \<longrightarrow>
        (\<exists>t'. lastActivated (objects (snd (processRules lv rnd rules ctx w)) y) = Some t'
              \<and> t \<le> t'))
   \<and> (\<forall>a \<in> set (activatedRules (fst (processRules lv rnd rules ctx w))).
        lastActivated (objects (snd (processRules lv rnd rules ctx w)) (rule a))
          = Some (resolveTurn ctx))
   \<and> (y \<notin> rule ` set (activatedRules (fst (processRules lv rnd rules ctx w))) \<longrightarrow>
        lastActivated (objects (snd (processRules lv rnd rules ctx w)) y)
          = lastActivated (objects w y)
        \<and> activationCount (objects (snd (processRules lv rnd rules ctx w)) y)
          = activationCount (objects w y))
   \<and> (case activationCount (objects w y) of None \<Rightarrow> 0 | Some c \<Rightarrow> c)
        \<le> (case activationCount (objects (snd (processRules lv rnd rules ctx w)) y) of
             None \<Rightarrow> 0 | Some c \<Rightarrow> c)
   \<and> resolveTurn ctx = (case currentTurn ctx of None \<Rightarrow> 0 | Some t \<Rightarrow> t)"
proof -
  let ?xs = "activeRulesOf (objects w) rules"
  let ?init = "(\<lparr>activated = [], skipped = [], total = 0\<rparr>, w)"
  let ?st = "processLoop lv rnd ctx (resolveBudget ctx) (resolveTurn ctx) ?xs ?init"
  have w': "snd (processRules lv rnd rules ctx w) = snd ?st"
    by (simp add: processRules_def Let_def)
  have acts: "set (activatedRules (fst (processRules lv rnd rules ctx w)))
                = set (activated (fst ?st))"
    by (simp add: processRules_def Let_def)
  have p1: "\<forall>c. activationCount (objects w y) = Some c \<longrightarrow>
        (\<exists>c'. activationCount (objects (snd ?st) y) = Some c' \<and> c \<le> c')"
    using processLoop_count [of ?init y _ lv rnd ctx "resolveBudget ctx" "resolveTurn ctx" ?xs]
    by simp
  have p2: "\<forall>t. lastActivated (objects w y) = Some t \<and> t \<le> resolveTurn ctx \<longrightarrow>
        (\<exists>t'. lastActivated (objects (snd ?st) y) = Some t' \<and> t \<le> t')"
    using processLoop_last [of lv rnd ctx "resolveBudget ctx" "resolveTurn ctx" ?xs ?init y]
    by auto
  have p3: "\<forall>a \<in> set (activated (fst ?st)).
      lastActivated (objects (snd ?st) (rule a)) = Some (resolveTurn ctx)"
    by (rule processLoop_activated_turn) simp
  have p4: "y \<notin> rule ` set (activatedRules (fst (processRules lv rnd rules ctx w))) \<longrightarrow>
        lastActivated (objects (snd (processRules lv rnd rules ctx w)) y)
          = lastActivated (objects w y)
        \<and> activationCount (objects (snd (processRules lv rnd rules ctx w)) y)
          = activationCount (objects w y)"
    using processRules_untouched [of y lv rnd rules ctx w] by simp
  have p5: "(case activationCount (objects w y) of None \<Rightarrow> 0 | Some c \<Rightarrow> c)
        \<le> (case activationCount (objects (snd ?st) y) of None \<Rightarrow> 0 | Some c \<Rightarrow> c)"
    using processLoop_count_or_zero [of ?init y lv rnd ctx "resolveBudget ctx" "resolveTurn ctx"
        ?xs]
    by simp
  have p123: "(\<forall>c. activationCount (objects w y) = Some c \<longrightarrow>
        (\<exists>c'. activationCount (objects (snd (processRules lv rnd rules ctx w)) y) = Some c'
              \<and> c \<le> c'))
   \<and> (\<forall>t. lastActivated (objects w y) = Some t \<and> t \<le> resolveTurn ctx \<longrightarrow>
        (\<exists>t'. lastActivated (objects (snd (processRules lv rnd rules ctx w)) y) = Some t'
              \<and> t \<le> t'))
   \<and> (\<forall>a \<in> set (activatedRules (fst (processRules lv rnd rules ctx w))).
        lastActivated (objects (snd (processRules lv rnd rules ctx w)) (rule a))
          = Some (resolveTurn ctx))"
    unfolding w' acts using p1 p2 p3 by blast
  have p5': "(case activationCount (objects w y) of None \<Rightarrow> 0 | Some c \<Rightarrow> c)
        \<le> (case activationCount (objects (snd (processRules lv rnd rules ctx w)) y) of
             None \<Rightarrow> 0 | Some c \<Rightarrow> c)"
    unfolding w' by (rule p5)
  show ?thesis
    using p123 p4 p5' resolveTurn_written_out [of ctx] by blast
qed

theorem metadata_never_decreases_witness:
  "activationCount (objects (newEngine idleRules) 0) = Some 2
   \<and> activationCount
        (objects (snd (processRules logicNumber (\<lambda>n. 0) [0, Suc 0] (turnContext 7)
                        (newEngine idleRules))) 0) = Some 3
   \<and> lastActivated (objects (newEngine idleRules) 0) = Some 5
   \<and> 5 \<le> resolveTurn (turnContext 7)
   \<and> lastActivated
        (objects (snd (processRules logicNumber (\<lambda>n. 0) [0, Suc 0] (turnContext 7)
                        (newEngine idleRules))) 0) = Some 7
   \<and> Suc 0 \<notin> rule ` set (activatedRules (fst (processRules logicNumber (\<lambda>n. 0) [0, Suc 0]
                                                  (turnContext 3) (newEngine idleRules))))
   \<and> resolveTurn (turnContext 3) = 3
   \<and> lastActivated (objects (newEngine idleRules) (Suc 0)) = Some 5
   \<and> lastActivated
        (objects (snd (processRules logicNumber (\<lambda>n. 0) [0, Suc 0] (turnContext 3)
                        (newEngine idleRules))) (Suc 0)) = Some 5
   \<and> activationCount
        (objects (snd (processRules logicNumber (\<lambda>n. 0) [0, Suc 0] (turnContext 3)
                        (newEngine idleRules))) (Suc 0)) = Some 2"
proof -
  let ?w = "newEngine idleRules"
  have before: "activationCount (objects ?w 0) = Some 2" "lastActivated (objects ?w 0) = Some 5"
    "activationCount (objects ?w (Suc 0)) = Some 2" "lastActivated (objects ?w (Suc 0)) = Some 5"
    by (simp_all add: newEngine_def idleRules_def seenRules_def plainRule_def)
  have turn: "resolveTurn (turnContext 7) = 7" "resolveTurn (turnContext 3) = 3"
    by (simp_all add: resolveTurn_def orNumber_def turnContext_def emptyContext_def)
  have after: "objects (snd (processRules logicNumber (\<lambda>n. 0) [0, Suc 0] (turnContext 7) ?w)) 0
                 = touchRule 7 (objects ?w 0)"
    by (simp add: idleRules_run)
  have count: "activationCount (touchRule 7 (objects ?w 0)) = Some 3"
    using touchRule_count [OF before(1), of 7] by simp
  have idle: "Suc 0 \<notin> rule ` set (activatedRules (fst (processRules logicNumber (\<lambda>n. 0)
                                       [0, Suc 0] (turnContext 3) ?w)))"
    by (simp add: idleRules_run)
  note active = metadata_never_decreases
      [of ?w 0 logicNumber "\<lambda>n. 0" "[0, Suc 0]" "turnContext 7"]
  note kept = metadata_never_decreases
      [of ?w "Suc 0" logicNumber "\<lambda>n. 0" "[0, Suc 0]" "turnContext 3"]
  have k: "lastActivated
        (objects (snd (processRules logicNumber (\<lambda>n. 0) [0, Suc 0] (turnContext 3) ?w)) (Suc 0))
         = Some 5"
    "activationCount
        (objects (snd (processRules logicNumber (\<lambda>n. 0) [0, Suc 0] (turnContext 3) ?w)) (Suc 0))
         = Some 2"
    using kept idle before(3,4) by simp_all
  show ?thesis
    using active before turn k idle by (simp add: after count)
qed

text \<open>
  Claim C7. Rule ids being unique among the rules given, a call changes rule objects and
  the activation history through activations only. Every activated rule has
  \<^verbatim>\<open>lastActivated\<close> set to the current turn (\<^verbatim>\<open>context.currentTurn\<close>, or 0) and
  \<^verbatim>\<open>activationCount\<close> raised by one from its value, or from 0 when it had none, its other
  fields kept, and has the current turn appended to the history of its id. Every rule
  object that is not activated is unchanged, the history of the id of every given rule
  that is not activated is unchanged, and so is the history of every id that no activated
  rule has.
\<close>

theorem activation_is_the_only_change:
  assumes "distinct (map (\<lambda>x. rule_id (objects w x)) rules)"
  shows "(\<forall>a \<in> set (activatedRules (fst (processRules lv rnd rules ctx w))).
            lastActivated (objects (snd (processRules lv rnd rules ctx w)) (rule a))
              = Some (case currentTurn ctx of None \<Rightarrow> 0 | Some t \<Rightarrow> t)
          \<and> activationCount (objects (snd (processRules lv rnd rules ctx w)) (rule a))
              = Some ((case activationCount (objects w (rule a)) of None \<Rightarrow> 0 | Some c \<Rightarrow> c) + 1)
          \<and> objects (snd (processRules lv rnd rules ctx w)) (rule a)
              = (objects w (rule a))
                  \<lparr>lastActivated := Some (case currentTurn ctx of None \<Rightarrow> 0 | Some t \<Rightarrow> t),
                   activationCount :=
                     Some ((case activationCount (objects w (rule a)) of
                              None \<Rightarrow> 0 | Some c \<Rightarrow> c) + 1)\<rparr>
          \<and> activationHistory (snd (processRules lv rnd rules ctx w))
                (rule_id (objects w (rule a)))
              = Some ((case activationHistory w (rule_id (objects w (rule a))) of
                         None \<Rightarrow> [] | Some h \<Rightarrow> h)
                      @ [case currentTurn ctx of None \<Rightarrow> 0 | Some t \<Rightarrow> t]))
       \<and> (\<forall>x. x \<notin> rule ` set (activatedRules (fst (processRules lv rnd rules ctx w))) \<longrightarrow>
              objects (snd (processRules lv rnd rules ctx w)) x = objects w x)
       \<and> (\<forall>x \<in> set rules.
              x \<notin> rule ` set (activatedRules (fst (processRules lv rnd rules ctx w))) \<longrightarrow>
              activationHistory (snd (processRules lv rnd rules ctx w)) (rule_id (objects w x))
                = activationHistory w (rule_id (objects w x)))
       \<and> (\<forall>k. k \<notin> (\<lambda>a. rule_id (objects w (rule a)))
                     ` set (activatedRules (fst (processRules lv rnd rules ctx w))) \<longrightarrow>
              activationHistory (snd (processRules lv rnd rules ctx w)) k = activationHistory w k)"
proof -
  let ?acts = "activatedRules (fst (processRules lv rnd rules ctx w))"
  let ?w' = "snd (processRules lv rnd rules ctx w)"
  let ?turn = "case currentTurn ctx of None \<Rightarrow> 0 | Some t \<Rightarrow> t"
  note e = processRules_effects [OF assms, of lv rnd ctx, unfolded touchRule_written_out
      orList_written_out resolveTurn_written_out]
  from e have obj: "\<forall>a \<in> set ?acts.
      objects ?w' (rule a)
        = (objects w (rule a))
            \<lparr>lastActivated := Some ?turn,
             activationCount :=
               Some ((case activationCount (objects w (rule a)) of None \<Rightarrow> 0 | Some c \<Rightarrow> c) + 1)\<rparr>"
    by blast
  have fields: "\<forall>a \<in> set ?acts.
      lastActivated (objects ?w' (rule a)) = Some ?turn
      \<and> activationCount (objects ?w' (rule a))
          = Some ((case activationCount (objects w (rule a)) of None \<Rightarrow> 0 | Some c \<Rightarrow> c) + 1)"
  proof
    fix a
    assume "a \<in> set ?acts"
    with obj have "objects ?w' (rule a)
        = (objects w (rule a))
            \<lparr>lastActivated := Some ?turn,
             activationCount :=
               Some ((case activationCount (objects w (rule a)) of None \<Rightarrow> 0 | Some c \<Rightarrow> c) + 1)\<rparr>"
      by blast
    then show "lastActivated (objects ?w' (rule a)) = Some ?turn
      \<and> activationCount (objects ?w' (rule a))
          = Some ((case activationCount (objects w (rule a)) of None \<Rightarrow> 0 | Some c \<Rightarrow> c) + 1)"
      by simp
  qed
  show ?thesis
    using e fields by blast
qed

theorem activation_is_the_only_change_witness:
  "distinct (map (\<lambda>x. rule_id (objects (newEngine budgetRules) x)) [Suc 0, 0])
   \<and> map rule (activatedRules (fst (processRules logicNumber (\<lambda>n. 0) [Suc 0, 0] budgetContext
                                      (newEngine budgetRules)))) = [0]
   \<and> lastActivated (budgetRules 0) = None \<and> activationCount (budgetRules 0) = None
   \<and> lastActivated (objects (snd (processRules logicNumber (\<lambda>n. 0) [Suc 0, 0] budgetContext
                                    (newEngine budgetRules))) 0) = Some 0
   \<and> activationCount (objects (snd (processRules logicNumber (\<lambda>n. 0) [Suc 0, 0] budgetContext
                                      (newEngine budgetRules))) 0) = Some 1
   \<and> objects (snd (processRules logicNumber (\<lambda>n. 0) [Suc 0, 0] budgetContext
                     (newEngine budgetRules))) 0
       = (budgetRules 0)\<lparr>lastActivated := Some 0, activationCount := Some 1\<rparr>
   \<and> activationHistory (snd (processRules logicNumber (\<lambda>n. 0) [Suc 0, 0] budgetContext
                               (newEngine budgetRules))) ''r1'' = Some [0]
   \<and> objects (snd (processRules logicNumber (\<lambda>n. 0) [Suc 0, 0] budgetContext
                     (newEngine budgetRules))) (Suc 0)
       = budgetRules (Suc 0)
   \<and> activationHistory (snd (processRules logicNumber (\<lambda>n. 0) [Suc 0, 0] budgetContext
                               (newEngine budgetRules))) ''r2'' = None"
proof -
  let ?run = "processRules logicNumber (\<lambda>n. 0) [Suc 0, 0] budgetContext (newEngine budgetRules)"
  have d: "distinct (map (\<lambda>x. rule_id (objects (newEngine budgetRules) x)) [Suc 0, 0])"
    by (simp add: budgetRules_objects budgetRules_labels)
  have acts: "activatedRules (fst ?run) =
      [\<lparr>rule = 0, activationReason = ''AND_ANY: Matched 1 keywords'',
        matchedKeywords = [''dragon''], tokenCost = 3000, priority = 10\<rparr>]"
    by (simp add: budgetRules_run)
  have turn: "currentTurn budgetContext = None"
    by (simp add: budgetContext_def emptyContext_def)
  have old: "activationHistory (newEngine budgetRules) k = None" for k
    by (simp add: newEngine_def)
  have fresh: "lastActivated (budgetRules 0) = None" "activationCount (budgetRules 0) = None"
    by (simp_all add: budgetRules_def plainRule_def)
  note frame = activation_is_the_only_change [OF d, of logicNumber "\<lambda>n. 0" budgetContext]
  from frame have first:
    "lastActivated (objects (snd ?run) 0) = Some 0"
    "activationCount (objects (snd ?run) 0) = Some 1"
    "objects (snd ?run) 0 = (budgetRules 0)\<lparr>lastActivated := Some 0, activationCount := Some 1\<rparr>"
    "activationHistory (snd ?run) ''r1'' = Some [0]"
    unfolding acts turn
    by (simp_all add: budgetRules_objects budgetRules_labels old fresh)
  from frame have second: "objects (snd ?run) (Suc 0) = budgetRules (Suc 0)"
    "activationHistory (snd ?run) ''r2'' = None"
    unfolding acts turn
    by (simp_all add: budgetRules_objects budgetRules_labels old)
  show ?thesis
    using d acts fresh first second by simp
qed

section \<open>The scan text\<close>



section \<open>The formatted block\<close>

text \<open>
  Claim C8. \<^verbatim>\<open>formatForPrompt\<close> returns the empty string exactly when no rule is
  activated. Otherwise the block ends with the footer made of the number of activated
  rules and the total of tokens in decimal, and reading the footer back gives exactly
  these two numbers.
\<close>

theorem format_footer_round_trip:
  "(formatForPrompt objs res = [] \<longleftrightarrow> activatedRules res = [])
   \<and> (activatedRules res \<noteq> [] \<longrightarrow>
        (\<exists>body. formatForPrompt objs res =
            body @ footerStart @ showNat (length (activatedRules res)) @ footerMiddle
              @ showInt (totalTokens res) @ footerEnd)
        \<and> readFooter (formatForPrompt objs res)
            = Some (length (activatedRules res), totalTokens res))"
proof (cases "activatedRules res = []")
  case True
  then show ?thesis by (simp add: formatForPrompt_def)
next
  case False
  let ?body = "foldl (\<lambda>acc a. acc @ ruleBlock objs a) headerText (activatedRules res)"
  have f: "formatForPrompt objs res =
      ?body @ footerStart @ showNat (length (activatedRules res)) @ footerMiddle
        @ showInt (totalTokens res) @ footerEnd"
    using False by (simp add: formatForPrompt_def Let_def)
  have "footerEnd \<noteq> []" by (simp add: footerEnd_def)
  then have "formatForPrompt objs res \<noteq> []" using f by simp
  moreover have "readFooter (formatForPrompt objs res)
            = Some (length (activatedRules res), totalTokens res)"
    unfolding f by (rule readFooter_footer)
  ultimately show ?thesis using False f by blast
qed

theorem format_footer_round_trip_witness:
  "activatedRules (fst (processRules logicNumber (\<lambda>n. 0) [Suc 0, 0] budgetContext
                          (newEngine budgetRules))) \<noteq> []
   \<and> readFooter (formatForPrompt budgetRules
        (fst (processRules logicNumber (\<lambda>n. 0) [Suc 0, 0] budgetContext (newEngine budgetRules))))
       = Some (1, 3000)
   \<and> formatForPrompt budgetRules
        (fst (processRules logicNumber (\<lambda>n. 0) [0] flagContext (newEngine flagRules))) = []"
proof -
  let ?res = "fst (processRules logicNumber (\<lambda>n. 0) [Suc 0, 0] budgetContext
                     (newEngine budgetRules))"
  let ?none = "fst (processRules logicNumber (\<lambda>n. 0) [0] flagContext (newEngine flagRules))"
  have some: "activatedRules ?res \<noteq> []" "length (activatedRules ?res) = 1"
    "totalTokens ?res = 3000"
    by (simp_all add: budgetRules_run)
  have none: "activatedRules ?none = []"
    by (simp add: flagRules_run)
  show ?thesis
    using format_footer_round_trip [of budgetRules ?res]
      format_footer_round_trip [of budgetRules ?none] some none
    by simp
qed

end
